theory Spec2Isabelle
  imports Main "HOL-Library.AList"
begin

section \<open>JavaScript strings\<close>

text \<open>
  Message content (decoded bodies, header values, prompts) is a JavaScript string: a
  sequence of UTF-16 code units, modelled as a list of naturals. Opaque ASCII
  identifiers (message identifiers, change-log positions, page tokens, media types,
  URLs, object keys, base64 data) are \<open>string\<close>. A JavaScript string is falsy exactly
  when it is empty; \<open>undefined\<close> is \<open>None\<close>.
\<close>

type_synonym ustring = "nat list"

definition js :: "string \<Rightarrow> ustring" where
  "js s = map of_char s"

definition truthy :: "'a list option \<Rightarrow> bool" where
  "truthy v = (case v of None \<Rightarrow> False | Some s \<Rightarrow> s \<noteq> [])"

text \<open>
  The code units matched by \<open>\s\<close> and removed by \<open>String.prototype.trim\<close>: the
  ECMAScript WhiteSpace and LineTerminator productions.
\<close>

definition is_ws :: "nat \<Rightarrow> bool" where
  "is_ws c \<longleftrightarrow>
     c = 9 \<or> c = 10 \<or> c = 11 \<or> c = 12 \<or> c = 13 \<or> c = 32 \<or> c = 160 \<or> c = 5760 \<or>
     (8192 \<le> c \<and> c \<le> 8202) \<or> c = 8232 \<or> c = 8233 \<or> c = 8239 \<or> c = 8287 \<or>
     c = 12288 \<or> c = 65279"

definition trim :: "ustring \<Rightarrow> ustring" where
  "trim s = rev (dropWhile is_ws (rev (dropWhile is_ws s)))"

section \<open>Regular expressions, as far as \<open>stripHtml\<close> uses them\<close>

text \<open>
  A backtracking matcher: \<open>rx_match ci r s\<close> lists the remainders of \<open>s\<close> after every
  way \<open>r\<close> matches a prefix of \<open>s\<close>, in the order a backtracking engine tries them
  (greedy quantifiers longest first, lazy ones shortest first, alternatives left to
  right). The head of the list is the match \<open>String.prototype.replace\<close> takes at that
  position. \<open>ci\<close> is the \<open>i\<close> flag; the patterns' letters are ASCII, for which the
  canonicalisation of a non-Unicode regular expression is ASCII upper-casing.
\<close>

datatype cls = Any | Ws | Only nat | Except nat | Between nat nat

fun in_cls :: "cls \<Rightarrow> nat \<Rightarrow> bool" where
  "in_cls Any c = True"
| "in_cls Ws c = is_ws c"
| "in_cls (Only d) c = (c = d)"
| "in_cls (Except d) c = (c \<noteq> d)"
| "in_cls (Between lo hi) c = (lo \<le> c \<and> c \<le> hi)"

datatype rx =
    Lit ustring
  | Cls cls
  | Seq rx rx
  | Alt rx rx
  | Opt rx
  | Greedy nat cls
  | Lazy nat cls
  | Ahead rx
  | NotAhead rx

definition canon :: "bool \<Rightarrow> nat \<Rightarrow> nat" where
  "canon ci c = (if ci \<and> 97 \<le> c \<and> c \<le> 122 then c - 32 else c)"

fun rx_match :: "bool \<Rightarrow> rx \<Rightarrow> ustring \<Rightarrow> ustring list" where
  "rx_match ci (Lit l) s =
     (if length l \<le> length s \<and> map (canon ci) (take (length l) s) = map (canon ci) l
      then [drop (length l) s] else [])"
| "rx_match ci (Cls k) s =
     (case s of [] \<Rightarrow> [] | c # t \<Rightarrow> if in_cls k c then [t] else [])"
| "rx_match ci (Seq a b) s = concat (map (rx_match ci b) (rx_match ci a s))"
| "rx_match ci (Alt a b) s = rx_match ci a s @ rx_match ci b s"
| "rx_match ci (Opt a) s = rx_match ci a s @ [s]"
| "rx_match ci (Greedy m k) s =
     map (\<lambda>j. drop j s) (rev [m ..< Suc (length (takeWhile (in_cls k) s))])"
| "rx_match ci (Lazy m k) s =
     map (\<lambda>j. drop j s) [m ..< Suc (length (takeWhile (in_cls k) s))]"
| "rx_match ci (Ahead a) s = (if rx_match ci a s = [] then [] else [s])"
| "rx_match ci (NotAhead a) s = (if rx_match ci a s = [] then [s] else [])"

fun seqs :: "rx list \<Rightarrow> rx" where
  "seqs [] = Lit []"
| "seqs [r] = r"
| "seqs (r # rs) = Seq r (seqs rs)"

text \<open>
  \<open>s.replace(/r/g, rep)\<close> for a replacement without \<open>$\<close> patterns: scan left to
  right, replace the first match at the leftmost position, continue after it; after
  an empty match the next code unit is copied.
\<close>

function replaceAll :: "bool \<Rightarrow> rx \<Rightarrow> ustring \<Rightarrow> ustring \<Rightarrow> ustring" where
  "replaceAll ci r rep [] = (case rx_match ci r [] of [] \<Rightarrow> [] | _ # _ \<Rightarrow> rep)"
| "replaceAll ci r rep (c # t) =
     (case rx_match ci r (c # t) of
        [] \<Rightarrow> c # replaceAll ci r rep t
      | rest # _ \<Rightarrow>
          if length rest < Suc (length t) then rep @ replaceAll ci r rep rest
          else rep @ c # replaceAll ci r rep t)"
  by pat_completeness auto
termination
  by (relation "measure (\<lambda>(ci, r, rep, s). length s)") auto

text \<open>The sixteen replacements of \<open>stripHtml\<close>, in the source's order, then \<open>trim\<close>.\<close>

definition rx_block :: "string \<Rightarrow> rx" where
  \<comment> \<open>\<open>/<tag[\s\S]*?<\/tag>/gi\<close>\<close>
  "rx_block tag = seqs [Lit (js (''<'' @ tag)), Lazy 0 Any, Lit (js (''</'' @ tag @ ''>''))]"

definition rx_br_before_tag :: rx where
  \<comment> \<open>\<open>/<br\s*\/?>(?=\s*<)/gi\<close>\<close>
  "rx_br_before_tag =
     seqs [Lit (js ''<br''), Greedy 0 Ws, Opt (Lit (js ''/'')), Lit (js ''>''),
           Ahead (Seq (Greedy 0 Ws) (Lit (js ''<'')))]"

definition rx_br :: rx where
  \<comment> \<open>\<open>/<br\s*\/?>(?!\n)/gi\<close>\<close>
  "rx_br =
     seqs [Lit (js ''<br''), Greedy 0 Ws, Opt (Lit (js ''/'')), Lit (js ''>''),
           NotAhead (Lit [10])]"

definition rx_block_close :: rx where
  \<comment> \<open>\<open>/<\/(p|div|h[1-6]|li)>/gi\<close>\<close>
  "rx_block_close =
     seqs [Lit (js ''</''),
           Alt (Lit (js ''p'')) (Alt (Lit (js ''div''))
             (Alt (Seq (Lit (js ''h'')) (Cls (Between 49 54))) (Lit (js ''li'')))),
           Lit (js ''>'')]"

definition rx_tag :: rx where
  \<comment> \<open>\<open>/<[^>]+>/g\<close>\<close>
  "rx_tag = seqs [Lit (js ''<''), Greedy 1 (Except 62), Lit (js ''>'')]"

definition bullet :: ustring where
  \<comment> \<open>the replacement for \<open><li>\<close> as line 125 has it: space, U+00E2, U+20AC, U+00A2, space\<close>
  "bullet = [32, 226, 8364, 162, 32]"

definition stripHtml :: "ustring \<Rightarrow> ustring" where
  "stripHtml html =
     (if html = [] then []
      else
        let s1 = replaceAll True (rx_block ''style'') [] html;
            s2 = replaceAll True (rx_block ''script'') [] s1;
            s3 = replaceAll True rx_br_before_tag [10] s2;
            s4 = replaceAll True rx_br [10] s3;
            s5 = replaceAll True rx_block_close [10] s4;
            s6 = replaceAll True (Lit (js ''<li>'')) bullet s5;
            s7 = replaceAll False rx_tag [32] s6;
            s8 = replaceAll True (Lit (js ''&nbsp;'')) [32] s7;
            s9 = replaceAll True (Lit (js ''&amp;'')) (js ''&'') s8;
            s10 = replaceAll True (Lit (js ''&lt;'')) (js ''<'') s9;
            s11 = replaceAll True (Lit (js ''&gt;'')) (js ''>'') s10;
            s12 = replaceAll True (Lit (js ''&#39;'')) [39] s11;
            s13 = replaceAll True (Lit (js ''&quot;'')) [34] s12;
            s14 = replaceAll False (Seq (Greedy 1 Ws) (Lit [10])) [10] s13;
            s15 = replaceAll False (Greedy 3 (Only 10)) [10, 10] s14;
            s16 = replaceAll False (Greedy 2 Ws) [32] s15
        in trim s16)"

section \<open>Errors, messages and the outside world\<close>

text \<open>
  A thrown JavaScript value: the HTTP status of the response when there is one
  (\<open>e.response?.status\<close>) and the message. Every operation that can throw returns
  \<open>error + 'a\<close>, with \<open>Inl\<close> the exception.
\<close>

datatype error = Err (status: "nat option") (message: string)

text \<open>
  A message part of the mailbox API: media type, header fields (name and value),
  inline base64url data (\<open>part.body?.data\<close>, \<open>None\<close> when the body or its data is
  absent) and child parts (empty when \<open>part.parts\<close> is not an array).

  Three names of the source are taken in Isabelle: the fields \<open>from\<close> and \<open>to\<close> of
  the forwarded message are \<open>from_addr\<close> and \<open>to_addr\<close>, and the \<open>id\<close> of a change
  event is \<open>hid\<close>. A "message added" sub-event is given by its
  \<open>m?.message?.id\<close>.
\<close>

datatype part =
  Part (mimeType: "string option") (headers: "(string \<times> ustring) list")
       (body_data: "string option") (parts: "part list")

record emailData =
  from_addr :: "ustring option"
  to_addr :: "ustring option"
  subject :: "ustring option"
  body :: ustring
  textBody :: "ustring option"
  htmlBody :: "ustring option"

datatype post_body =
    EmailBody emailData
  | CreateSession string
  | Query ustring bool

datatype log =
    ForwardFailed string error
  | SaveFailed error
  | SessionCreated string
  | SessionExists string
  | SessionCreateFailed error
  | QueryPosted string
  | QueryFailed error
  | HandlerError string error

text \<open>
  What a run does to the outside, in order. Requests and writes are recorded when
  they are attempted, whether or not they succeed; \<open>SseWrite\<close> carries the
  subscriber, the event name, the source tag, the message identifier, the data and
  whether the write went through.
\<close>

datatype effect =
    Ack nat
  | HistoryList string "string option"
  | MessagesGet string
  | SseWrite nat string string string emailData bool
  | AxiosPost string post_body
  | WriteFile "(string \<times> string) list"
  | Console log

record hist =
  hid :: "string option"
  messagesAdded :: "string option list"

record page =
  history :: "hist list"
  nextPageToken :: "string option"

text \<open>
  The collaborators and the configuration of one run: the platform's base64 and UTF-8
  decoder (\<open>Buffer.from(s, "base64").toString("utf-8")\<close>), the mailbox API, the
  attached live subscribers and whether a write to each goes through, the environment
  variables, the session identifier chosen at boot, the HTTP client, and the outcome
  of a write of the state file: it succeeds, or it fails with an error either
  before the file is opened (\<open>write_truncated\<close> is false) or after the file has been
  opened for writing and truncated.
\<close>

record world =
  decode :: "string \<Rightarrow> error + ustring"
  history_list :: "string \<Rightarrow> string option \<Rightarrow> error + page"
  messages_get :: "string \<Rightarrow> error + part option"
  sseClients :: "nat list"
  sse_write_ok :: "nat \<Rightarrow> bool"
  NGROK_ENDPOINT :: "string option"
  OUTBOUND_POST_URL :: "string option"
  CONTAINER_SESSION_ID :: string
  axios_post :: "string \<Rightarrow> post_body \<Rightarrow> error + unit"
  write_error :: "error option"
  write_truncated :: bool

section \<open>Content extractor\<close>

definition decodeBase64UrlToUtf8 :: "(string \<Rightarrow> error + ustring) \<Rightarrow> string option \<Rightarrow> ustring" where
  "decodeBase64UrlToUtf8 dec data =
     (case data of
        None \<Rightarrow> []
      | Some d \<Rightarrow>
          if d = [] then []
          else
            let base64 = map (\<lambda>c. if c = CHR ''_'' then CHR ''/'' else c)
                           (map (\<lambda>c. if c = CHR ''-'' then CHR ''+'' else c) d)
            in (case dec base64 of Inl _ \<Rightarrow> [] | Inr s \<Rightarrow> s))"

text \<open>
  \<open>walk\<close> threads the two variables \<open>text\<close> and \<open>html\<close> of \<open>extractEmailBodies\<close>
  through the tree; \<open>part.parts.forEach(walk)\<close> is the fold over the children.
\<close>

fun walk :: "(string \<Rightarrow> error + ustring) \<Rightarrow> part \<Rightarrow> ustring \<times> ustring \<Rightarrow> ustring \<times> ustring" where
  "walk dec (Part mt hs d ps) (text, html) =
     (let text1 = (if mt = Some ''text/plain'' \<and> truthy d \<and> text = []
                   then decodeBase64UrlToUtf8 dec d else text);
          html1 = (if mt = Some ''text/html'' \<and> truthy d \<and> html = []
                   then decodeBase64UrlToUtf8 dec d else html)
      in fold (walk dec) ps (text1, html1))"

definition top_level :: "(string \<Rightarrow> error + ustring) \<Rightarrow> part \<Rightarrow> ustring \<times> ustring" where
  \<comment> \<open>the block "Handle messages where data is on the top-level body"\<close>
  "top_level dec p =
     (if truthy (body_data p) then
        let decoded = decodeBase64UrlToUtf8 dec (body_data p) in
        if mimeType p = Some ''text/plain'' then (decoded, [])
        else if mimeType p = Some ''text/html'' then ([], decoded)
        else (decoded, [])
      else ([], []))"

definition extractEmailBodies :: "(string \<Rightarrow> error + ustring) \<Rightarrow> part option \<Rightarrow> ustring \<times> ustring" where
  \<comment> \<open>the result is the pair \<open>(text, html)\<close> of the returned object\<close>
  "extractEmailBodies dec payload =
     (case payload of
        None \<Rightarrow> ([], [])
      | Some p \<Rightarrow> (let (text, html) = walk dec p (top_level dec p) in (trim text, trim html)))"

section \<open>Building the forwarded message\<close>

definition or_else :: "'a list option \<Rightarrow> 'a list option \<Rightarrow> 'a list option" where
  \<comment> \<open>\<open>a || b\<close> on strings that may be undefined\<close>
  "or_else a b = (if truthy a then a else b)"

definition or_undefined :: "'a list \<Rightarrow> 'a list option" where
  \<comment> \<open>\<open>s || undefined\<close>\<close>
  "or_undefined s = (if s = [] then None else Some s)"

definition or_empty :: "'a list option \<Rightarrow> 'a list" where
  \<comment> \<open>\<open>a || ""\<close>\<close>
  "or_empty a = (case a of None \<Rightarrow> [] | Some s \<Rightarrow> s)"

definition no_text_found :: ustring where
  "no_text_found = js ''(no text found)''"

definition emailData_of :: "(string \<Rightarrow> error + ustring) \<Rightarrow> part \<Rightarrow> emailData" where
  \<comment> \<open>lines 195 to 210 of \<open>forwardMessageById\<close>, for a payload that is present\<close>
  "emailData_of dec p =
     (let (text, html) = extractEmailBodies dec (Some p);
          hs = headers p
      in \<lparr> from_addr = map_of hs ''From'',
           to_addr = or_else (map_of hs ''To'') (map_of hs ''Delivered-To''),
           subject = map_of hs ''Subject'',
           body = (if text \<noteq> [] then text
                   else if html \<noteq> [] then stripHtml html else no_text_found),
           textBody = or_undefined text,
           htmlBody = or_undefined html \<rparr>)"

definition buildEmailPrompt :: "emailData \<Rightarrow> ustring" where
  "buildEmailPrompt data =
     (let from = or_empty (from_addr data);
          to = or_empty (to_addr data);
          subj = or_empty (subject data);
          b = (if truthy (textBody data) then or_empty (textBody data) else body data)
      in trim (js ''From: '' @ from @ [10] @ js ''To: '' @ to @ [10] @
               js ''Subject: '' @ subj @ [10, 10] @ b))"

section \<open>Fan-out forwarder\<close>

text \<open>
  \<open>sseBroadcast\<close> writes to every attached subscriber inside its own
  \<open>try { ... } catch (_) {}\<close>: a write that throws is dropped and the loop goes on.
\<close>

definition sseBroadcast :: "world \<Rightarrow> string \<Rightarrow> string \<Rightarrow> string \<Rightarrow> emailData \<Rightarrow> effect list" where
  "sseBroadcast w event src mid data =
     map (\<lambda>res. SseWrite res event src mid data (sse_write_ok w res)) (sseClients w)"

definition CONTAINER_CREATE_PATH :: string where
  "CONTAINER_CREATE_PATH = ''/singleton/agent/create''"

definition CONTAINER_QUERY_BASE :: string where
  "CONTAINER_QUERY_BASE = ''/singleton/agent''"

definition strip_trailing_slash :: "string \<Rightarrow> string" where
  \<comment> \<open>\<open>base.replace(/\/$/, "")\<close>\<close>
  "strip_trailing_slash base =
     (if base \<noteq> [] \<and> last base = CHR ''/'' then butlast base else base)"

definition hex_digit :: "nat \<Rightarrow> char" where
  "hex_digit n = (if n < 10 then char_of (48 + n) else char_of (55 + n))"

definition unreserved :: "char \<Rightarrow> bool" where
  "unreserved c \<longleftrightarrow>
     (let n = (of_char c :: nat) in
        (65 \<le> n \<and> n \<le> 90) \<or> (97 \<le> n \<and> n \<le> 122) \<or> (48 \<le> n \<and> n \<le> 57) \<or>
        c \<in> set ''-_.!~*'()'')"

definition encodeURIComponent :: "string \<Rightarrow> string" where
  \<comment> \<open>on a string read as UTF-8 bytes: every byte outside the unreserved set is escaped\<close>
  "encodeURIComponent s =
     concat (map (\<lambda>c. if unreserved c then [c]
                       else [CHR ''%'', hex_digit (of_char c div 16), hex_digit (of_char c mod 16)]) s)"

definition ensureContainerSession :: "world \<Rightarrow> effect list" where
  "ensureContainerSession w =
     (case OUTBOUND_POST_URL w of
        None \<Rightarrow> []
      | Some base \<Rightarrow>
          if base = [] then []
          else
            let url = strip_trailing_slash base @ CONTAINER_CREATE_PATH;
                req = CreateSession (CONTAINER_SESSION_ID w)
            in AxiosPost url req #
               (case axios_post w url req of
                  Inr _ \<Rightarrow> [Console (SessionCreated (CONTAINER_SESSION_ID w))]
                | Inl err \<Rightarrow>
                    if status err = Some 409
                    then [Console (SessionExists (CONTAINER_SESSION_ID w))]
                    else [Console (SessionCreateFailed err)]))"

definition postEmailToContainerAPI :: "world \<Rightarrow> emailData \<Rightarrow> effect list" where
  "postEmailToContainerAPI w data =
     (case OUTBOUND_POST_URL w of
        None \<Rightarrow> []
      | Some base \<Rightarrow>
          if base = [] then []
          else
            let url = strip_trailing_slash base @ CONTAINER_QUERY_BASE @ ''/'' @
                      encodeURIComponent (CONTAINER_SESSION_ID w) @ ''/query'';
                payload = Query (buildEmailPrompt data) False
            in ensureContainerSession w @ [AxiosPost url payload] @
               (case axios_post w url payload of
                  Inr _ \<Rightarrow> [Console (QueryPosted (CONTAINER_SESSION_ID w))]
                | Inl err \<Rightarrow> [Console (QueryFailed err)]))"

definition TypeError :: error where
  "TypeError = Err None ''TypeError''"

text \<open>
  \<open>forwardMessageById\<close> returns the built message or the exception that leaves it,
  with the effects up to that point. The request for the message and the webhook
  POST are awaited outside any \<open>try\<close>; reading \<open>headers\<close> of an absent payload is a
  TypeError.
\<close>

definition forwardMessageById :: "world \<Rightarrow> string \<Rightarrow> (error + emailData) \<times> effect list" where
  "forwardMessageById w messageId =
     (case messages_get w messageId of
        Inl err \<Rightarrow> (Inl err, [MessagesGet messageId])
      | Inr None \<Rightarrow> (Inl TypeError, [MessagesGet messageId])
      | Inr (Some payload) \<Rightarrow>
          let data = emailData_of (decode w) payload;
              tr1 = MessagesGet messageId # sseBroadcast w ''email'' ''push'' messageId data
          in (case NGROK_ENDPOINT w of
                None \<Rightarrow> (Inr data, tr1 @ postEmailToContainerAPI w data)
              | Some url \<Rightarrow>
                  if url = [] then (Inr data, tr1 @ postEmailToContainerAPI w data)
                  else (case axios_post w url (EmailBody data) of
                          Inl err \<Rightarrow> (Inl err, tr1 @ [AxiosPost url (EmailBody data)])
                        | Inr _ \<Rightarrow>
                            (Inr data, tr1 @ [AxiosPost url (EmailBody data)] @
                                       postEmailToContainerAPI w data))))"

section \<open>Cursor store\<close>

text \<open>
  The state file is described by what reading and parsing it gives: it is absent,
  unreadable, holds text that \<open>JSON.parse\<close> rejects, or holds a flat object of
  string fields in key order (what this program writes). \<open>JSON.stringify\<close> of
  such an object followed by \<open>JSON.parse\<close> is the identity. Assigning a property
  keeps the position of a key that exists and appends a new one, as
  \<open>AList.update\<close> does.

  \<open>fs.writeFileSync\<close> opens the file with flag \<open>w\<close>, which truncates it, and then
  writes. A write that fails at the open leaves the file as it was. One that fails
  later leaves the file empty or holding a proper prefix of the text, neither of
  which \<open>JSON.parse\<close> accepts.
\<close>

type_synonym state = "(string \<times> string) list"

datatype state_file = Absent | Unreadable | Corrupt | Json state

definition readFileSync_parse :: "state_file \<Rightarrow> error + state" where
  \<comment> \<open>\<open>JSON.parse(fs.readFileSync(STATE_FILE, "utf-8"))\<close>\<close>
  "readFileSync_parse f =
     (case f of
        Absent \<Rightarrow> Inl (Err None ''ENOENT'')
      | Unreadable \<Rightarrow> Inl (Err None ''EACCES'')
      | Corrupt \<Rightarrow> Inl (Err None ''SyntaxError'')
      | Json st \<Rightarrow> Inr st)"

definition loadState :: "state_file \<Rightarrow> error + state" where
  "loadState f = (case readFileSync_parse f of Inl _ \<Rightarrow> Inr [] | Inr st \<Rightarrow> Inr st)"

definition writeFileSync :: "world \<Rightarrow> state_file \<Rightarrow> state \<Rightarrow> (error + unit) \<times> state_file" where
  "writeFileSync w f obj =
     (case write_error w of
        None \<Rightarrow> (Inr (), Json obj)
      | Some err \<Rightarrow> (Inl err, if write_truncated w then Corrupt else f))"

definition saveState :: "world \<Rightarrow> state_file \<Rightarrow> state \<Rightarrow> (error + unit) \<times> state_file \<times> effect list" where
  "saveState w f obj =
     (case writeFileSync w f obj of
        (Inr u, f') \<Rightarrow> (Inr (), f', [WriteFile obj])
      | (Inl e, f') \<Rightarrow> (Inr (), f', [WriteFile obj, Console (SaveFailed e)]))"

section \<open>History sync engine\<close>

text \<open>
  The pending set is a JavaScript \<open>Set\<close>: it iterates in insertion order and adding
  a member again changes nothing.
\<close>

definition set_add :: "'a \<Rightarrow> 'a list \<Rightarrow> 'a list" where
  "set_add x xs = (if x \<in> set xs then xs else xs @ [x])"

definition fold_event :: "hist \<Rightarrow> string \<times> string list \<Rightarrow> string \<times> string list" where
  \<comment> \<open>the body of \<open>history.forEach\<close>: \<open>(latestHistoryId, added)\<close> after one event\<close>
  "fold_event h acc =
     (case acc of (latestHistoryId, added) \<Rightarrow>
        ((case hid h of None \<Rightarrow> latestHistoryId
          | Some i \<Rightarrow> if i = [] then latestHistoryId else i),
         fold (\<lambda>m a. case m of None \<Rightarrow> a | Some i \<Rightarrow> if i = [] then a else set_add i a)
              (messagesAdded h) added))"

text \<open>
  The \<open>do ... while (pageToken)\<close> loop. The remote decides how many pages there are,
  so the loop takes fuel: \<open>None\<close> is a loop that has not ended within it. The
  accumulator is the pair of the variables \<open>latestHistoryId\<close> and \<open>added\<close>.
\<close>

fun page_loop ::
  "nat \<Rightarrow> world \<Rightarrow> string \<Rightarrow> string option \<Rightarrow> string \<times> string list \<Rightarrow>
   ((error + string \<times> string list) \<times> effect list) option" where
  "page_loop 0 w start pageToken acc = None"
| "page_loop (Suc n) w start pageToken acc =
     (case history_list w start pageToken of
        Inl err \<Rightarrow> Some (Inl err, [HistoryList start pageToken])
      | Inr resp \<Rightarrow>
          let acc' = fold fold_event (history resp) acc in
          if truthy (nextPageToken resp) then
            (case page_loop n w start (nextPageToken resp) acc' of
               None \<Rightarrow> None
             | Some (r, tr) \<Rightarrow> Some (r, HistoryList start pageToken # tr))
          else Some (Inr acc', [HistoryList start pageToken]))"

fun forward_all :: "world \<Rightarrow> string list \<Rightarrow> effect list" where
  \<comment> \<open>\<open>for (const id of added) { try { await forwardMessageById(id) } catch (e) { log } }\<close>\<close>
  "forward_all w [] = []"
| "forward_all w (i # ids) =
     (case forwardMessageById w i of
        (Inl e, tr) \<Rightarrow> tr @ [Console (ForwardFailed i e)]
      | (Inr _, tr) \<Rightarrow> tr) @ forward_all w ids"

record sync_result =
  count :: nat
  latestHistoryId :: string

definition processHistorySince ::
  "nat \<Rightarrow> world \<Rightarrow> state_file \<Rightarrow> string \<Rightarrow> ((error + sync_result) \<times> state_file \<times> effect list) option" where
  "processHistorySince n w f startHistoryId =
     (case page_loop n w startHistoryId None (startHistoryId, []) of
        None \<Rightarrow> None
      | Some (Inl err, tr) \<Rightarrow> Some (Inl err, f, tr)
      | Some (Inr (latest, added), tr) \<Rightarrow>
          let tr2 = tr @ forward_all w added;
              res = \<lparr> count = length added, latestHistoryId = latest \<rparr>
          in if latest \<noteq> [] then
               (case loadState f of
                  Inl err \<Rightarrow> Some (Inl err, f, tr2)
                | Inr st \<Rightarrow>
                    (case saveState w f (AList.update ''historyId'' latest st) of
                       (Inl err, f', tr3) \<Rightarrow> Some (Inl err, f', tr2 @ tr3)
                     | (Inr _, f', tr3) \<Rightarrow> Some (Inr res, f', tr2 @ tr3)))
             else Some (Inr res, f, tr2))"

section \<open>Push notification gateway\<close>

text \<open>
  The request body of a push, by what decoding it gives: no \<open>message.data\<close>; data
  for which decoding, parsing or reading \<open>historyId\<close> throws; or a parsed
  notification with its \<open>historyId\<close>. The two routes \<open>/gmail/push\<close> and \<open>/gmail-notify\<close> differ in the
  route name of the log line only.
\<close>

datatype push_body = NoData | BadData error | Notification "string option"

definition push_start :: "state \<Rightarrow> string \<Rightarrow> string" where
  \<comment> \<open>\<open>state.historyId || historyId\<close>\<close>
  "push_start st historyId =
     (case map_of st ''historyId'' of
        None \<Rightarrow> historyId
      | Some c \<Rightarrow> if c = [] then historyId else c)"

definition push_handler ::
  "string \<Rightarrow> nat \<Rightarrow> world \<Rightarrow> state_file \<Rightarrow> push_body \<Rightarrow> (state_file \<times> effect list) option" where
  "push_handler route n w f req =
     (case req of
        NoData \<Rightarrow> Some (f, [Ack 204])
      | BadData err \<Rightarrow> Some (f, [Ack 204, Console (HandlerError route err)])
      | Notification historyId \<Rightarrow>
          (case historyId of
             None \<Rightarrow> Some (f, [Ack 204])
           | Some h \<Rightarrow>
               if h = [] then Some (f, [Ack 204])
               else
                 (case loadState f of
                    Inl err \<Rightarrow> Some (f, [Ack 204, Console (HandlerError route err)])
                  | Inr st \<Rightarrow>
                      (case processHistorySince n w f (push_start st h) of
                         None \<Rightarrow> None
                       | Some (Inl err, f', tr) \<Rightarrow>
                           Some (f', Ack 204 # tr @ [Console (HandlerError route err)])
                       | Some (Inr _, f', tr) \<Rightarrow> Some (f', Ack 204 # tr)))))"

definition gmail_push :: "nat \<Rightarrow> world \<Rightarrow> state_file \<Rightarrow> push_body \<Rightarrow> (state_file \<times> effect list) option" where
  "gmail_push = push_handler ''/gmail/push''"

definition gmail_notify :: "nat \<Rightarrow> world \<Rightarrow> state_file \<Rightarrow> push_body \<Rightarrow> (state_file \<times> effect list) option" where
  "gmail_notify = push_handler ''/gmail-notify''"

section \<open>Notions the properties are stated with\<close>

text \<open>The parts of a tree in depth-first order, a part before its children.\<close>

fun dfs :: "part \<Rightarrow> part list" where
  "dfs (Part mt hs d ps) = Part mt hs d ps # concat (map dfs ps)"

definition candidates :: "(string \<Rightarrow> error + ustring) \<Rightarrow> string \<Rightarrow> part \<Rightarrow> ustring list" where
  \<comment> \<open>the decoded contents of the parts of one media type that carry inline data, in depth-first order\<close>
  "candidates dec mt p =
     map (\<lambda>q. decodeBase64UrlToUtf8 dec (body_data q))
         (filter (\<lambda>q. mimeType q = Some mt \<and> truthy (body_data q)) (dfs p))"

definition provisional :: "(string \<Rightarrow> error + ustring) \<Rightarrow> part \<Rightarrow> ustring list" where
  \<comment> \<open>the decoded top-level body when it has inline data of neither media type\<close>
  "provisional dec p =
     (if truthy (body_data p) \<and> mimeType p \<noteq> Some ''text/plain'' \<and> mimeType p \<noteq> Some ''text/html''
      then [decodeBase64UrlToUtf8 dec (body_data p)] else [])"

definition first_nonempty :: "'a list list \<Rightarrow> 'a list" where
  "first_nonempty xs = (case filter (\<lambda>x. x \<noteq> []) xs of [] \<Rightarrow> [] | x # _ \<Rightarrow> x)"

text \<open>
  \<open>served w start tok ps\<close>: asked from \<open>tok\<close> on, the change log answers with exactly
  the pages \<open>ps\<close>, the last of which names no further page.
\<close>

fun served :: "world \<Rightarrow> string \<Rightarrow> string option \<Rightarrow> page list \<Rightarrow> bool" where
  "served w start tok [] = False"
| "served w start tok (pg # rest) =
     (history_list w start tok = Inr pg \<and>
      (if truthy (nextPageToken pg) then served w start (nextPageToken pg) rest
       else rest = []))"

definition hist_ids :: "hist list \<Rightarrow> string list" where
  \<comment> \<open>the non-empty identifiers of a sequence of change events, in order\<close>
  "hist_ids hs =
     concat (map (\<lambda>h. case hid h of None \<Rightarrow> [] | Some i \<Rightarrow> if i = [] then [] else [i]) hs)"

definition hist_added :: "hist list \<Rightarrow> string list" where
  \<comment> \<open>the non-empty message identifiers of their "message added" sub-events, in order\<close>
  "hist_added hs =
     concat (map (\<lambda>m. case m of None \<Rightarrow> [] | Some i \<Rightarrow> if i = [] then [] else [i])
                 (concat (map messagesAdded hs)))"

definition event_ids :: "page list \<Rightarrow> string list" where
  "event_ids ps = hist_ids (concat (map history ps))"

definition added_ids :: "page list \<Rightarrow> string list" where
  "added_ids ps = hist_added (concat (map history ps))"

definition latest_of :: "string \<Rightarrow> page list \<Rightarrow> string" where
  \<comment> \<open>the identifier of the last change event that carries one, else the start position\<close>
  "latest_of start ps = (if event_ids ps = [] then start else last (event_ids ps))"

fun page_requests :: "string \<Rightarrow> string option \<Rightarrow> page list \<Rightarrow> effect list" where
  "page_requests start tok [] = []"
| "page_requests start tok (pg # rest) =
     HistoryList start tok # page_requests start (nextPageToken pg) rest"

definition loaded :: "state_file \<Rightarrow> state" where
  \<comment> \<open>the object \<open>loadState\<close> returns\<close>
  "loaded f = (case f of Json st \<Rightarrow> st | _ \<Rightarrow> [])"

definition forward_calls :: "effect list \<Rightarrow> string list" where
  \<comment> \<open>the message requests of a run: one opens every call of \<open>forwardMessageById\<close>\<close>
  "forward_calls tr =
     concat (map (\<lambda>e. case e of MessagesGet i \<Rightarrow> [i] | _ \<Rightarrow> []) tr)"

definition posts_of :: "effect list \<Rightarrow> string list" where
  \<comment> \<open>the URLs of the HTTP POSTs of a run\<close>
  "posts_of tr = concat (map (\<lambda>e. case e of AxiosPost url b \<Rightarrow> [url] | _ \<Rightarrow> []) tr)"

definition handed_over :: "effect list \<Rightarrow> emailData list" where
  \<comment> \<open>the messages a run hands to the live subscribers and to the webhook\<close>
  "handed_over tr =
     concat (map (\<lambda>e. case e of
                         SseWrite c ev src m d ok \<Rightarrow> [d]
                       | AxiosPost url b \<Rightarrow> (case b of EmailBody d \<Rightarrow> [d] | _ \<Rightarrow> [])
                       | _ \<Rightarrow> []) tr)"

definition plain :: "ustring \<Rightarrow> bool" where
  \<comment> \<open>text with no \<open><\<close>, no \<open>&\<close> and no white space\<close>
  "plain s \<longleftrightarrow> (\<forall>c \<in> set s. c \<noteq> 60 \<and> c \<noteq> 38 \<and> \<not> is_ws c)"

definition webhook_error :: "world \<Rightarrow> emailData \<Rightarrow> error option" where
  \<comment> \<open>the error of the legacy webhook POST, when the webhook is configured and the POST fails\<close>
  "webhook_error w data =
     (case NGROK_ENDPOINT w of
        None \<Rightarrow> None
      | Some url \<Rightarrow>
          if url = [] then None
          else (case axios_post w url (EmailBody data) of Inl e \<Rightarrow> Some e | Inr _ \<Rightarrow> None))"

definition numval :: "string \<Rightarrow> nat" where
  \<comment> \<open>the number a string of decimal digits denotes\<close>
  "numval s = fold (\<lambda>c n. 10 * n + (of_char c - 48)) s 0"

definition cursor_of :: "state_file \<Rightarrow> string option" where
  "cursor_of f = (case f of Json st \<Rightarrow> map_of st ''historyId'' | _ \<Rightarrow> None)"

definition pos_val :: "state_file \<Rightarrow> nat" where
  \<comment> \<open>the persisted cursor as a number; no cursor counts as 0\<close>
  "pos_val f = numval (or_empty (cursor_of f))"

definition ordered_remote :: "world \<Rightarrow> bool" where
  \<comment> \<open>the change log only returns events at or after the position it is asked from\<close>
  "ordered_remote w \<longleftrightarrow>
     (\<forall>start tok pg. history_list w start tok = Inr pg \<longrightarrow>
        (\<forall>i \<in> set (event_ids [pg]). numval start \<le> numval i))"

definition truncating_failure :: "world \<Rightarrow> bool" where
  \<comment> \<open>the write of the state file fails after the file was truncated\<close>
  "truncating_failure w \<longleftrightarrow> write_error w \<noteq> None \<and> write_truncated w"

text \<open>
  Pushes handled one after the other, each on either route and against the world of
  its moment: the state file after each. A pass runs alone; no other pass is
  interleaved at one of its \<open>await\<close>s.
\<close>

datatype route = GmailPush | GmailNotify

definition handle_push ::
  "route \<Rightarrow> nat \<Rightarrow> world \<Rightarrow> state_file \<Rightarrow> push_body \<Rightarrow> (state_file \<times> effect list) option" where
  "handle_push r = (case r of GmailPush \<Rightarrow> gmail_push | GmailNotify \<Rightarrow> gmail_notify)"

fun pushes :: "nat \<Rightarrow> state_file \<Rightarrow> (route \<times> world \<times> push_body) list \<Rightarrow> state_file list option" where
  "pushes n f [] = Some []"
| "pushes n f ((r, w, req) # rest) =
     (case handle_push r n w f req of
        None \<Rightarrow> None
      | Some (f', tr) \<Rightarrow> map_option ((#) f') (pushes n f' rest))"

section \<open>A sample platform and sample runs\<close>

text \<open>
  Base64 decoding as the platform does it for a string: characters outside the
  alphabet are skipped, both alphabets are read, \<open>=\<close> ends the data, and every
  complete byte is kept. \<open>sample_decode\<close> reads the bytes as code units, which is
  UTF-8 decoding when every byte is below 128.
\<close>

definition unbase64 :: "char \<Rightarrow> nat option" where
  "unbase64 ch =
     (let c = (of_char ch :: nat) in
      if 65 \<le> c \<and> c \<le> 90 then Some (c - 65)
      else if 97 \<le> c \<and> c \<le> 122 then Some (c - 71)
      else if 48 \<le> c \<and> c \<le> 57 then Some (c + 4)
      else if c = 43 \<or> c = 45 then Some 62
      else if c = 47 \<or> c = 95 then Some 63
      else None)"

fun sextets :: "string \<Rightarrow> nat list" where
  "sextets [] = []"
| "sextets (ch # s) =
     (case unbase64 ch of
        Some v \<Rightarrow> v # sextets s
      | None \<Rightarrow> if ch = CHR ''='' then [] else sextets s)"

fun bytes_of :: "nat list \<Rightarrow> nat list" where
  "bytes_of (a # b # c # d # r) =
     (a * 4 + b div 16) # ((b mod 16) * 16 + c div 4) # ((c mod 4) * 64 + d) # bytes_of r"
| "bytes_of [a, b, c] = [a * 4 + b div 16, (b mod 16) * 16 + c div 4]"
| "bytes_of [a, b] = [a * 4 + b div 16]"
| "bytes_of _ = []"

definition sample_decode :: "string \<Rightarrow> error + ustring" where
  "sample_decode s = Inr (bytes_of (sextets s))"

definition html_only :: part where
  \<comment> \<open>a message whose only part is the HTML \<open><p>Hi</p>\<close>\<close>
  "html_only =
     Part (Some ''text/html'')
          [(''From'', js ''ann@example.org''), (''Delivered-To'', js ''bob@example.org''),
           (''Subject'', js ''Hello'')]
          (Some ''PHA-SGk8L3A-'') []"

definition two_plain :: part where
  \<comment> \<open>two plain-text parts, "First" and "Second", under a multipart root\<close>
  "two_plain =
     Part (Some ''multipart/mixed'') [(''From'', js ''ann@example.org'')] None
       [Part (Some ''text/plain'') [] (Some ''Rmlyc3Q='') [],
        Part (Some ''text/plain'') [] (Some ''U2Vjb25k'') []]"

definition empty_first :: part where
  \<comment> \<open>as \<open>two_plain\<close>, but the first part's data decodes to the empty string\<close>
  "empty_first =
     Part (Some ''multipart/mixed'') [] None
       [Part (Some ''text/plain'') [] (Some ''='') [],
        Part (Some ''text/plain'') [] (Some ''U2Vjb25k'') []]"

definition html_list :: part where
  \<comment> \<open>a message whose only part is the HTML \<open><li>A</li>\<close>\<close>
  "html_list = Part (Some ''text/html'') [] (Some ''PGxpPkE8L2xpPg=='') []"

definition markup_fixture :: ustring where
  \<comment> \<open>style and script blocks, line breaks, block-level closing tags, list items, other tags\<close>
  "markup_fixture =
     js ''<STYLE>p{}</STYLE><Script>x()</script><h1>T</h1><p>a<br>b<BR />c</p><ul><li>one</li><LI>two</LI></ul><span id=k>end</span>''"

definition entity_fixture :: ustring where
  \<comment> \<open>the six entities, in both cases, and \<open>&amp;lt;\<close>, which is unescaped twice\<close>
  "entity_fixture = js ''a&nbsp;&amp;&lt;&gt;&#39;&quot;&AMP;lt;&NBSP;z''"

definition space_fixture :: ustring where
  \<comment> \<open>runs of white space with and without line feeds, a no-break space, a break before a line feed\<close>
  "space_fixture =
     js ''  a '' @ [9, 32, 10, 10, 10] @ js ''  b   c'' @ [160] @ js ''<br>'' @ [10] @ js ''d  ''"

definition one_page :: "hist list \<Rightarrow> string \<Rightarrow> string option \<Rightarrow> error + page" where
  "one_page hs start tok = Inr \<lparr> history = hs, nextPageToken = None \<rparr>"

definition sample_world :: world where
  \<comment> \<open>one subscriber whose write fails, a webhook and an agent that both answer\<close>
  "sample_world =
     \<lparr> decode = sample_decode,
       history_list = one_page [],
       messages_get = (\<lambda>i. if i = ''m1'' then Inr (Some html_only)
                            else if i = ''m2'' then Inr (Some two_plain)
                            else Inl (Err (Some 404) ''Not Found'')),
       sseClients = [0],
       sse_write_ok = (\<lambda>c. False),
       NGROK_ENDPOINT = Some ''http://hook'',
       OUTBOUND_POST_URL = Some ''http://agent/'',
       CONTAINER_SESSION_ID = ''intern-0a1b2c3d'',
       axios_post = (\<lambda>url b. Inr ()),
       write_error = None,
       write_truncated = False \<rparr>"

definition page1 :: page where
  "page1 = \<lparr> history = [\<lparr> hid = Some ''11'', messagesAdded = [Some ''m1'', Some ''m9''] \<rparr>],
             nextPageToken = Some ''t1'' \<rparr>"

definition page2 :: page where
  "page2 = \<lparr> history = [\<lparr> hid = Some ''12'', messagesAdded = [Some ''m1''] \<rparr>,
                         \<lparr> hid = Some ''13'', messagesAdded = [None, Some ''m2''] \<rparr>],
             nextPageToken = None \<rparr>"

definition paged_world :: world where
  \<comment> \<open>a change log of two pages; \<open>m1\<close> is referenced twice, \<open>m9\<close> cannot be fetched\<close>
  "paged_world =
     sample_world \<lparr> history_list :=
       (\<lambda>start tok. if tok = None then Inr page1
                     else if tok = Some ''t1'' then Inr page2
                     else Inl (Err (Some 400) ''Bad Request'')) \<rparr>"

definition unordered_world :: world where
  \<comment> \<open>a change log that answers with event 7 before event 5\<close>
  "unordered_world =
     sample_world \<lparr> history_list :=
       one_page [\<lparr> hid = Some ''7'', messagesAdded = [] \<rparr>,
                 \<lparr> hid = Some ''5'', messagesAdded = [] \<rparr>] \<rparr>"

definition log_remote :: "hist list \<Rightarrow> string \<Rightarrow> string option \<Rightarrow> error + page" where
  \<comment> \<open>a change log that answers, in one page, with its events after the start position\<close>
  "log_remote lg start tok =
     Inr \<lparr> history = filter (\<lambda>h. case hid h of None \<Rightarrow> False
                                   | Some i \<Rightarrow> numval start < numval i) lg,
           nextPageToken = None \<rparr>"

definition log_world :: "hist list \<Rightarrow> world" where
  "log_world lg = sample_world \<lparr> history_list := log_remote lg \<rparr>"

definition early_log :: "hist list" where
  "early_log = [\<lparr> hid = Some ''11'', messagesAdded = [Some ''m1''] \<rparr>,
                \<lparr> hid = Some ''12'', messagesAdded = [Some ''m2''] \<rparr>]"

definition later_log :: "hist list" where
  "later_log = early_log @ [\<lparr> hid = Some ''13'', messagesAdded = [Some ''m1''] \<rparr>,
                            \<lparr> hid = Some ''14'', messagesAdded = [Some ''m2''] \<rparr>]"

definition disk_full :: world where
  \<comment> \<open>every write of the state file fails after the file was truncated\<close>
  "disk_full =
     sample_world \<lparr> write_error := Some (Err None ''ENOSPC''), write_truncated := True \<rparr>"

definition read_only :: "hist list \<Rightarrow> world" where
  \<comment> \<open>as \<open>log_world\<close>, but the state file cannot be opened for writing\<close>
  "read_only lg = log_world lg \<lparr> write_error := Some (Err None ''EACCES'') \<rparr>"

definition agent_down :: world where
  \<comment> \<open>the webhook answers; the agent API fails every request\<close>
  "agent_down =
     sample_world \<lparr> axios_post :=
       (\<lambda>url b. if url = ''http://hook'' then Inr () else Inl (Err (Some 500) ''Internal Server Error'')) \<rparr>"

definition hook_down :: world where
  \<comment> \<open>the webhook fails; the agent API answers\<close>
  "hook_down =
     sample_world \<lparr> axios_post :=
       (\<lambda>url b. if url = ''http://hook'' then Inl (Err (Some 502) ''Bad Gateway'') else Inr ()) \<rparr>"

section \<open>Sync engine: what a pass over a finite change log computes\<close>

lemma loadState_loaded: "loadState f = Inr (loaded f)"
  by (cases f) (simp_all add: loadState_def readFileSync_parse_def loaded_def)

lemma saveState_cases:
  "saveState w f obj =
     (case write_error w of
        None \<Rightarrow> (Inr (), Json obj, [WriteFile obj])
      | Some e \<Rightarrow> (Inr (), if write_truncated w then Corrupt else f,
                   [WriteFile obj, Console (SaveFailed e)]))"
  by (simp add: saveState_def writeFileSync_def split: option.splits)

lemma fold_event_fold:
  "fold fold_event hs (l, a) =
     (if hist_ids hs = [] then l else last (hist_ids hs), fold set_add (hist_added hs) a)"
proof (induction hs arbitrary: l a)
  case Nil
  show ?case by (simp add: hist_ids_def hist_added_def)
next
  case (Cons h hs)
  have added: "fold (\<lambda>m a. case m of None \<Rightarrow> a | Some i \<Rightarrow> if i = [] then a else set_add i a) ms b =
      fold set_add (concat (map (\<lambda>m. case m of None \<Rightarrow> [] | Some i \<Rightarrow> if i = [] then [] else [i]) ms)) b"
    for ms b
    by (induction ms arbitrary: b) (auto split: option.splits)
  have step: "fold_event h (l, a) =
      ((case hid h of None \<Rightarrow> l | Some i \<Rightarrow> if i = [] then l else i),
       fold set_add (hist_added [h]) a)"
    by (simp add: fold_event_def added hist_added_def)
  have ids: "hist_ids (h # hs) = hist_ids [h] @ hist_ids hs"
    and adds: "hist_added (h # hs) = hist_added [h] @ hist_added hs"
    by (simp_all add: hist_ids_def hist_added_def)
  show ?case
    unfolding fold_simps step Cons.IH ids adds
    by (auto simp: hist_ids_def split: option.splits)
qed

lemma page_loop_served:
  "served w start tok ps \<Longrightarrow> length ps \<le> n \<Longrightarrow>
   page_loop n w start tok acc =
     Some (Inr (fold fold_event (concat (map history ps)) acc), page_requests start tok ps)"
proof (induction ps arbitrary: n tok acc)
  case Nil
  then show ?case by simp
next
  case (Cons pg rest)
  then obtain m where n: "n = Suc m" by (cases n) auto
  show ?case
  proof (cases "truthy (nextPageToken pg)")
    case True
    with Cons.prems have "served w start (nextPageToken pg) rest" "length rest \<le> m"
      by (auto simp: n)
    from Cons.IH[OF this] Cons.prems True show ?thesis
      by (simp add: n)
  next
    case False
    with Cons.prems show ?thesis by (simp add: n)
  qed
qed


lemma process_served:
  assumes "served w start None ps" and "length ps \<le> n"
  shows "processHistorySince n w f start =
     (let latest = latest_of start ps;
          added = fold set_add (added_ids ps) [];
          tr2 = page_requests start None ps @ forward_all w added;
          res = \<lparr> count = length added, latestHistoryId = latest \<rparr>;
          st' = AList.update ''historyId'' latest (loaded f)
      in if latest \<noteq> [] then
           (case write_error w of
              None \<Rightarrow> Some (Inr res, Json st', tr2 @ [WriteFile st'])
            | Some e \<Rightarrow> Some (Inr res, if write_truncated w then Corrupt else f,
                             tr2 @ [WriteFile st', Console (SaveFailed e)]))
         else Some (Inr res, f, tr2))"
  unfolding processHistorySince_def page_loop_served[OF assms] fold_event_fold
    loadState_loaded saveState_cases
  by (simp add: Let_def latest_of_def event_ids_def added_ids_def split: option.splits)

lemma forward_calls_Nil [simp]: "forward_calls [] = []"
  by (simp add: forward_calls_def)

lemma forward_calls_append [simp]:
  "forward_calls (xs @ ys) = forward_calls xs @ forward_calls ys"
  by (simp add: forward_calls_def)

lemma forward_calls_Cons:
  "forward_calls (e # tr) = (case e of MessagesGet i \<Rightarrow> [i] | _ \<Rightarrow> []) @ forward_calls tr"
  by (simp add: forward_calls_def)

lemma forward_calls_sse [simp]: "forward_calls (sseBroadcast w ev src m d) = []"
  by (simp add: sseBroadcast_def forward_calls_def)

lemma forward_calls_ensure [simp]: "forward_calls (ensureContainerSession w) = []"
  by (simp add: ensureContainerSession_def forward_calls_Cons Let_def split: option.splits sum.splits)

lemma forward_calls_agent [simp]: "forward_calls (postEmailToContainerAPI w d) = []"
  by (simp add: postEmailToContainerAPI_def forward_calls_Cons Let_def split: option.splits sum.splits)

lemma forward_calls_forward [simp]:
  "forward_calls (snd (forwardMessageById w i)) = [i]"
  by (simp add: forwardMessageById_def forward_calls_Cons Let_def
      split: option.splits sum.splits)

lemma forward_calls_forward_all [simp]: "forward_calls (forward_all w ids) = ids"
proof (induction ids)
  case Nil
  show ?case by (simp add: forward_calls_def)
next
  case (Cons i ids)
  have "forward_calls (case forwardMessageById w i of
          (Inl e, tr) \<Rightarrow> tr @ [Console (ForwardFailed i e)] | (Inr x, tr) \<Rightarrow> tr) = [i]"
    using forward_calls_forward[of w i]
    by (cases "forwardMessageById w i") (auto simp: forward_calls_Cons forward_calls_def split: sum.splits)
  with Cons show ?case by simp
qed

lemma forward_calls_pages [simp]: "forward_calls (page_requests start tok ps) = []"
  by (induction ps arbitrary: tok) (simp_all add: forward_calls_Cons)

lemma set_fold_set_add: "set (fold set_add xs a) = set xs \<union> set a"
  by (induction xs arbitrary: a) (auto simp: set_add_def)

lemma distinct_fold_set_add: "distinct a \<Longrightarrow> distinct (fold set_add xs a)"
  by (induction xs arbitrary: a) (auto simp: set_add_def)


lemma count_list_distinct: "distinct xs \<Longrightarrow> x \<in> set xs \<Longrightarrow> count_list xs x = 1"
  by (induction xs) auto

lemma page_loop_calls:
  "page_loop n w start tok acc = Some (r, tr) \<Longrightarrow> forward_calls tr = []"
proof (induction n arbitrary: tok acc r tr)
  case 0
  then show ?case by simp
next
  case (Suc n)
  show ?case
  proof (cases "history_list w start tok")
    case (Inl e)
    with Suc.prems show ?thesis by (auto simp: forward_calls_Cons forward_calls_def)
  next
    case (Inr pg)
    show ?thesis
    proof (cases "truthy (nextPageToken pg)")
      case True
      with Suc.prems Inr obtain r' tr' where
        rec: "page_loop n w start (nextPageToken pg) (fold fold_event (history pg) acc) = Some (r', tr')"
        and tr: "tr = HistoryList start tok # tr'"
        by (auto simp: Let_def split: option.splits)
      from Suc.IH[OF rec] tr show ?thesis by (simp add: forward_calls_Cons)
    next
      case False
      with Suc.prems Inr show ?thesis by (auto simp: Let_def forward_calls_Cons forward_calls_def)
    qed
  qed
qed

lemma page_loop_distinct:
  "page_loop n w start tok (l, a) = Some (Inr (l', a'), tr) \<Longrightarrow> distinct a \<Longrightarrow> distinct a'"
proof (induction n arbitrary: tok l a tr)
  case 0
  then show ?case by simp
next
  case (Suc n)
  show ?case
  proof (cases "history_list w start tok")
    case (Inl e)
    with Suc.prems show ?thesis by auto
  next
    case (Inr pg)
    let ?acc = "fold fold_event (history pg) (l, a)"
    have acc: "?acc = (fst ?acc, fold set_add (hist_added (history pg)) a)"
      by (simp add: fold_event_fold)
    have d: "distinct (fold set_add (hist_added (history pg)) a)"
      using Suc.prems(2) by (rule distinct_fold_set_add)
    show ?thesis
    proof (cases "truthy (nextPageToken pg)")
      case True
      with Suc.prems(1) Inr obtain tr' where
        "page_loop n w start (nextPageToken pg) ?acc = Some (Inr (l', a'), tr')"
        by (auto simp: Let_def split: option.splits)
      then have "page_loop n w start (nextPageToken pg)
          (fst ?acc, fold set_add (hist_added (history pg)) a) = Some (Inr (l', a'), tr')"
        using acc by simp
      from Suc.IH[OF this d] show ?thesis .
    next
      case False
      with Suc.prems(1) Inr have "?acc = (l', a')" by (auto simp: Let_def)
      with acc d show ?thesis by (metis snd_conv)
    qed
  qed
qed

lemma process_calls_distinct:
  assumes "processHistorySince n w f start = Some (r, f', tr)"
  shows "distinct (forward_calls tr)"
proof (cases "page_loop n w start None (start, [])")
  case None
  with assms show ?thesis by (simp add: processHistorySince_def)
next
  case (Some res)
  obtain pr ptr where res: "res = (pr, ptr)" by (cases res)
  have ptr: "forward_calls ptr = []"
    using Some res page_loop_calls by blast
  show ?thesis
  proof (cases pr)
    case (Inl e)
    with assms Some res ptr show ?thesis by (auto simp: processHistorySince_def)
  next
    case (Inr la)
    obtain l a where la: "la = (l, a)" by (cases la)
    have "distinct a"
      using Some res Inr la page_loop_distinct[of n w start None start "[]" l a ptr] by simp
    with assms Some res Inr la ptr show ?thesis
      by (auto simp: processHistorySince_def Let_def loadState_loaded saveState_cases
          forward_calls_Cons forward_calls_def[of "[]"]
          split: if_splits option.splits)
  qed
qed


section \<open>Cursor store: neither operation throws\<close>

text \<open>
  Claim C9. Whatever the backing store holds, \<open>loadState\<close> returns and does not
  throw, and it returns the empty object when the file is absent, unreadable or not
  parsable. \<open>saveState\<close> never throws either: a write that succeeds stores the
  whole object, and a write that fails is logged and swallowed, whatever it left
  of the file.
\<close>

theorem cursor_store_never_throws:
  "(f = Absent \<or> f = Unreadable \<or> f = Corrupt \<longrightarrow> loadState f = Inr []) \<and>
   (\<exists>st. loadState f = Inr st) \<and>
   (\<exists>f' tr. saveState w f obj = (Inr (), f', tr)) \<and>
   (write_error w = None \<longrightarrow> saveState w f obj = (Inr (), Json obj, [WriteFile obj])) \<and>
   (\<forall>e. write_error w = Some e \<longrightarrow>
      (\<exists>f'. saveState w f obj = (Inr (), f', [WriteFile obj, Console (SaveFailed e)])))"
  by (auto simp: loadState_loaded loaded_def saveState_cases split: option.splits)

text \<open>
  A write that fails with the disk full after the file was truncated: the error is
  logged, \<open>saveState\<close> returns, and the next \<open>loadState\<close> gives the empty object.
\<close>

theorem cursor_store_never_throws_witness:
  "write_error disk_full = Some (Err None ''ENOSPC'') \<and>
   (\<exists>f'. saveState disk_full (Json [(''historyId'', ''41'')]) [(''historyId'', ''42'')] =
      (Inr (), f', [WriteFile [(''historyId'', ''42'')], Console (SaveFailed (Err None ''ENOSPC''))])) \<and>
   loadState Corrupt = Inr []"
proof -
  have e: "write_error disk_full = Some (Err None ''ENOSPC'')"
    by (simp add: disk_full_def sample_world_def)
  note inst = cursor_store_never_throws[of Corrupt disk_full "[(''historyId'', ''42'')]"]
    cursor_store_never_throws[of "Json [(''historyId'', ''41'')]" disk_full "[(''historyId'', ''42'')]"]
  from inst(1) have l: "loadState Corrupt = Inr []" by simp
  from inst(2) e have "\<exists>f'. saveState disk_full (Json [(''historyId'', ''41'')]) [(''historyId'', ''42'')] =
      (Inr (), f', [WriteFile [(''historyId'', ''42'')], Console (SaveFailed (Err None ''ENOSPC''))])"
    by simp
  with e l show ?thesis by (intro conjI)
qed

section \<open>Sync engine: every message is forwarded once\<close>

lemma served_paged: "served paged_world ''10'' None [page1, page2]"
  by (simp add: paged_world_def page1_def page2_def truthy_def)

text \<open>
  Claim C6. In a sync pass every message identifier is forwarded at most once: the
  calls of \<open>forwardMessageById\<close> of any pass that returns are pairwise distinct.
  When the change log is read to its end, the identifiers forwarded are exactly those
  referenced by some "message added" sub-event of some page, each forwarded exactly
  once however many sub-events reference it.
\<close>

theorem each_message_forwarded_once:
  "(processHistorySince n w f start = Some (r, f', tr) \<longrightarrow> distinct (forward_calls tr)) \<and>
   (served w start None ps \<longrightarrow> length ps \<le> n \<longrightarrow>
      (\<exists>r f' tr. processHistorySince n w f start = Some (r, f', tr) \<and>
         set (forward_calls tr) = set (added_ids ps) \<and>
         (\<forall>i \<in> set (added_ids ps). count_list (forward_calls tr) i = 1)))"
proof (intro conjI impI)
  assume "processHistorySince n w f start = Some (r, f', tr)"
  then show "distinct (forward_calls tr)" by (rule process_calls_distinct)
next
  assume s: "served w start None ps" and l: "length ps \<le> n"
  let ?added = "fold set_add (added_ids ps) []"
  have d: "distinct ?added" by (simp add: distinct_fold_set_add)
  have m: "set ?added = set (added_ids ps)" by (simp add: set_fold_set_add)
  have "\<exists>r f' tr. processHistorySince n w f start = Some (r, f', tr) \<and> forward_calls tr = ?added"
    by (cases "write_error w") (simp_all add: process_served[OF s l] Let_def forward_calls_Cons)
  then obtain r f' tr where run: "processHistorySince n w f start = Some (r, f', tr)"
    and calls: "forward_calls tr = ?added"
    by blast
  have "\<forall>i \<in> set (added_ids ps). count_list (forward_calls tr) i = 1"
    using d m calls by (simp add: count_list_distinct)
  with run calls m show "\<exists>r f' tr. processHistorySince n w f start = Some (r, f', tr) \<and>
         set (forward_calls tr) = set (added_ids ps) \<and>
         (\<forall>i \<in> set (added_ids ps). count_list (forward_calls tr) i = 1)"
    by auto
qed

text \<open>
  Two pages that reference \<open>m1\<close> twice: three calls, one for each identifier.
\<close>

theorem each_message_forwarded_once_witness:
  "served paged_world ''10'' None [page1, page2] \<and> length [page1, page2] \<le> 2 \<and>
   added_ids [page1, page2] = [''m1'', ''m9'', ''m1'', ''m2''] \<and>
   (\<exists>r f' tr. processHistorySince 2 paged_world Absent ''10'' = Some (r, f', tr) \<and>
      set (forward_calls tr) = set (added_ids [page1, page2]) \<and>
      (\<forall>i \<in> set (added_ids [page1, page2]). count_list (forward_calls tr) i = 1))"
proof -
  have a: "added_ids [page1, page2] = [''m1'', ''m9'', ''m1'', ''m2'']"
    by (simp add: added_ids_def hist_added_def page1_def page2_def)
  have l: "length [page1, page2] \<le> 2" by simp
  note run = each_message_forwarded_once[where n = 2 and w = paged_world and f = Absent
      and start = "''10''" and ps = "[page1, page2]", THEN conjunct2, rule_format,
      OF served_paged l]
  from served_paged l a run show ?thesis by (intro conjI)
qed


section \<open>Sync engine: the cursor is persisted whatever the forwards do\<close>


lemma cursor_of_update [simp]:
  "cursor_of (Json (AList.update ''historyId'' v st)) = Some v"
  by (simp add: cursor_of_def update_conv')


lemma latest_paged: "latest_of ''10'' [page1, page2] = ''13''"
  by (simp add: latest_of_def event_ids_def hist_ids_def page1_def page2_def)




section \<open>Sync engine: the latest position\<close>

lemma last_sorted_Max:
  assumes "sorted (map g xs)" and "xs \<noteq> []"
  shows "g (last xs) = Max (g ` set xs)"
proof -
  obtain ys z where xs: "xs = ys @ [z]"
    using assms(2) by (metis append_butlast_last_id)
  with assms(1) have "\<forall>y \<in> set ys. g y \<le> g z"
    by (simp add: sorted_append)
  then have "Max (g ` set xs) = g z"
    unfolding xs by (intro Max_eqI) auto
  with xs show ?thesis by simp
qed

text \<open>
  Claim C4, amended. The latest position returned is the identifier of the last
  change event, in page order, that carries a non-empty identifier, and the start
  position when no event carries one. It is the highest identifier when the
  identifiers arrive in non-decreasing order. It is persisted when it is not empty
  and the write succeeds.
\<close>

theorem latest_is_last_event_id:
  assumes "served w start None ps" and "length ps \<le> n"
  shows "\<exists>res f' tr. processHistorySince n w f start = Some (Inr res, f', tr) \<and>
     latestHistoryId res = (if event_ids ps = [] then start else last (event_ids ps)) \<and>
     (event_ids ps \<noteq> [] \<longrightarrow> sorted (map numval (event_ids ps)) \<longrightarrow>
        numval (latestHistoryId res) = Max (numval ` set (event_ids ps))) \<and>
     (latestHistoryId res \<noteq> [] \<longrightarrow> write_error w = None \<longrightarrow>
        cursor_of f' = Some (latestHistoryId res))"
proof -
  define L where "L = latest_of start ps"
  define added where "added = fold set_add (added_ids ps) []"
  have mx: "event_ids ps \<noteq> [] \<longrightarrow> sorted (map numval (event_ids ps)) \<longrightarrow>
      numval L = Max (numval ` set (event_ids ps))"
    by (simp add: L_def latest_of_def last_sorted_Max)
  have l: "L = (if event_ids ps = [] then start else last (event_ids ps))"
    by (simp add: L_def latest_of_def)
  have "\<exists>f' tr. processHistorySince n w f start =
        Some (Inr \<lparr> count = length added, latestHistoryId = L \<rparr>, f', tr) \<and>
      (L \<noteq> [] \<longrightarrow> write_error w = None \<longrightarrow> cursor_of f' = Some L)"
    by (cases "write_error w"; cases "L = []")
      (simp_all add: process_served[OF assms] Let_def L_def[symmetric] added_def[symmetric])
  then obtain f' tr where
    run: "processHistorySince n w f start =
        Some (Inr \<lparr> count = length added, latestHistoryId = L \<rparr>, f', tr)"
    and cur: "L \<noteq> [] \<longrightarrow> write_error w = None \<longrightarrow> cursor_of f' = Some L"
    by (elim exE conjE)
  show ?thesis
    apply (rule exI[of _ "\<lparr> count = length added, latestHistoryId = L \<rparr>"])
    apply (rule exI[of _ f'])
    apply (rule exI[of _ tr])
    using run cur mx l by simp
qed

lemma event_ids_paged: "event_ids [page1, page2] = [''11'', ''12'', ''13'']"
  by (simp add: event_ids_def hist_ids_def page1_def page2_def)

lemma numval_simps:
  "numval ''5'' = 5" "numval ''7'' = 7" "numval ''9'' = 9" "numval ''10'' = 10"
  "numval ''11'' = 11" "numval ''12'' = 12" "numval ''13'' = 13" "numval ''14'' = 14"
  by (simp_all add: numval_def)

text \<open>
  Two pages with the events 11, 12 and 13: the latest position is 13, the highest.
\<close>

theorem latest_is_last_event_id_witness:
  "served paged_world ''10'' None [page1, page2] \<and> length [page1, page2] \<le> 2 \<and>
   event_ids [page1, page2] = [''11'', ''12'', ''13''] \<and>
   sorted (map numval (event_ids [page1, page2])) \<and>
   (\<exists>res f' tr. processHistorySince 2 paged_world Absent ''10'' = Some (Inr res, f', tr) \<and>
      latestHistoryId res = ''13'' \<and>
      numval ''13'' = Max (numval ` set (event_ids [page1, page2])) \<and>
      cursor_of f' = Some ''13'')"
proof -
  have l: "length [page1, page2] \<le> 2" by simp
  have srt: "sorted (map numval (event_ids [page1, page2]))"
    by (simp add: event_ids_paged numval_simps)
  have w: "write_error paged_world = None" by (simp add: paged_world_def sample_world_def)
  from latest_is_last_event_id[OF served_paged l, of Absent]
  obtain res f' tr where
    "processHistorySince 2 paged_world Absent ''10'' = Some (Inr res, f', tr)"
    "latestHistoryId res = ''13''"
    "numval ''13'' = Max (numval ` set (event_ids [page1, page2]))"
    "cursor_of f' = Some ''13''"
    using srt w by (auto simp: event_ids_paged)
  with served_paged l srt event_ids_paged show ?thesis by blast
qed

text \<open>
  Claim C4 as stated fails: for a page with event 7 followed by event 5 the latest
  position returned and persisted is 5, not the highest identifier 7.
\<close>

theorem latest_is_not_highest_counterexample:
  "history_list unordered_world ''1'' None =
     Inr \<lparr> history = [\<lparr> hid = Some ''7'', messagesAdded = [] \<rparr>,
                      \<lparr> hid = Some ''5'', messagesAdded = [] \<rparr>],
           nextPageToken = None \<rparr> \<and>
   processHistorySince 1 unordered_world Absent ''1'' =
     Some (Inr \<lparr> count = 0, latestHistoryId = ''5'' \<rparr>, Json [(''historyId'', ''5'')],
           [HistoryList ''1'' None, WriteFile [(''historyId'', ''5'')]]) \<and>
   numval ''5'' < numval ''7''"
  by (simp add: processHistorySince_def unordered_world_def sample_world_def one_page_def
      fold_event_def truthy_def loadState_loaded loaded_def saveState_cases numval_simps)

section \<open>Sync engine: the other keys of the state\<close>

text \<open>
  Claim C10. A sync pass that persists a new cursor changes no other key of the
  state it loaded: every key but \<open>historyId\<close> keeps its value, and the other
  fields keep their order.
\<close>

theorem cursor_update_keeps_other_keys:
  assumes "served w start None ps" and "length ps \<le> n" and "latest_of start ps \<noteq> []"
    and "write_error w = None"
  shows "\<exists>res st' tr. processHistorySince n w f start = Some (Inr res, Json st', tr) \<and>
     map_of st' ''historyId'' = Some (latest_of start ps) \<and>
     (\<forall>k. k \<noteq> ''historyId'' \<longrightarrow> map_of st' k = map_of (loaded f) k) \<and>
     AList.delete ''historyId'' st' = AList.delete ''historyId'' (loaded f)"
  using assms(3,4)
  by (simp add: process_served[OF assms(1,2)] Let_def update_conv' delete_update_same)

text \<open>
  A state with the keys \<open>owner\<close> and \<open>watch\<close> around the cursor.
\<close>

theorem cursor_update_keeps_other_keys_witness:
  "served paged_world ''10'' None [page1, page2] \<and> length [page1, page2] \<le> 2 \<and>
   latest_of ''10'' [page1, page2] = ''13'' \<and> write_error paged_world = None \<and>
   (\<exists>res st' tr.
      processHistorySince 2 paged_world
          (Json [(''owner'', ''ann''), (''historyId'', ''10''), (''watch'', ''on'')]) ''10'' =
        Some (Inr res, Json st', tr) \<and>
      map_of st' ''historyId'' = Some ''13'' \<and> map_of st' ''owner'' = Some ''ann'' \<and>
      map_of st' ''watch'' = Some ''on'' \<and>
      AList.delete ''historyId'' st' = [(''owner'', ''ann''), (''watch'', ''on'')])"
proof -
  have l: "length [page1, page2] \<le> 2" by simp
  have ne: "latest_of ''10'' [page1, page2] \<noteq> []" by (simp add: latest_paged)
  have w: "write_error paged_world = None" by (simp add: paged_world_def sample_world_def)
  from cursor_update_keeps_other_keys[OF served_paged l ne w,
      of "Json [(''owner'', ''ann''), (''historyId'', ''10''), (''watch'', ''on'')]"]
  obtain res st' tr where
    "processHistorySince 2 paged_world
          (Json [(''owner'', ''ann''), (''historyId'', ''10''), (''watch'', ''on'')]) ''10'' =
        Some (Inr res, Json st', tr)"
    "map_of st' ''historyId'' = Some ''13''" "map_of st' ''owner'' = Some ''ann''"
    "map_of st' ''watch'' = Some ''on''"
    "AList.delete ''historyId'' st' = [(''owner'', ''ann''), (''watch'', ''on'')]"
    by (auto simp: latest_paged loaded_def)
  with served_paged l latest_paged w show ?thesis by blast
qed

section \<open>Push gateway: the start position\<close>

text \<open>
  Claim C2, amended. For a push that carries a position hint, both push routes
  invoke the sync engine from the persisted cursor when one is present and not
  empty, and from the hint otherwise. The start position is never below the
  persisted cursor; it is not compared with the hint.
\<close>

theorem push_starts_from_persisted_cursor:
  assumes "h \<noteq> []"
  shows "let start = (case cursor_of f of None \<Rightarrow> h | Some c \<Rightarrow> if c = [] then h else c) in
     gmail_push n w f (Notification (Some h)) =
       map_option (\<lambda>(r, f', tr). (f', Ack 204 # tr @
           (case r of Inl e \<Rightarrow> [Console (HandlerError ''/gmail/push'' e)] | Inr _ \<Rightarrow> [])))
         (processHistorySince n w f start) \<and>
     gmail_notify n w f (Notification (Some h)) =
       map_option (\<lambda>(r, f', tr). (f', Ack 204 # tr @
           (case r of Inl e \<Rightarrow> [Console (HandlerError ''/gmail-notify'' e)] | Inr _ \<Rightarrow> [])))
         (processHistorySince n w f start) \<and>
     pos_val f \<le> numval start \<and>
     (\<forall>c. cursor_of f = Some c \<longrightarrow> c \<noteq> [] \<longrightarrow> start = c) \<and>
     (cursor_of f = None \<longrightarrow> start = h)"
proof -
  have start: "push_start (loaded f) h =
      (case cursor_of f of None \<Rightarrow> h | Some c \<Rightarrow> if c = [] then h else c)"
    by (cases f) (simp_all add: push_start_def loaded_def cursor_of_def)
  have run: "push_handler route n w f (Notification (Some h)) =
       map_option (\<lambda>(r, f', tr). (f', Ack 204 # tr @
           (case r of Inl e \<Rightarrow> [Console (HandlerError route e)] | Inr _ \<Rightarrow> [])))
         (processHistorySince n w f (push_start (loaded f) h))" for route
    using assms
    by (simp add: push_handler_def loadState_loaded split: option.splits sum.splits prod.splits)
  have pos: "pos_val f \<le> numval (push_start (loaded f) h)"
    unfolding start
    by (simp add: pos_val_def or_empty_def numval_def split: option.splits)
  show ?thesis
    unfolding Let_def gmail_push_def gmail_notify_def run
    using pos by (simp add: start split: option.splits)
qed

text \<open>
  A push with hint 12 on a store that holds cursor 10 starts the pass from 10.
\<close>

theorem push_starts_from_persisted_cursor_witness:
  "''12'' \<noteq> [] \<and>
   gmail_push 1 unordered_world (Json [(''historyId'', ''10'')]) (Notification (Some ''12'')) =
     map_option (\<lambda>(r, f', tr). (f', Ack 204 # tr @
           (case r of Inl e \<Rightarrow> [Console (HandlerError ''/gmail/push'' e)] | Inr _ \<Rightarrow> [])))
         (processHistorySince 1 unordered_world (Json [(''historyId'', ''10'')]) ''10'') \<and>
   pos_val (Json [(''historyId'', ''10'')]) \<le> numval ''10''"
  using push_starts_from_persisted_cursor[of "''12''" "Json [(''historyId'', ''10'')]" 1 unordered_world]
  by (simp add: cursor_of_def Let_def)

text \<open>
  Claim C2 as stated fails: with cursor 5 persisted and hint 9 the change log is
  asked from position 5, which is below the hint.
\<close>

theorem push_start_below_hint_counterexample:
  "gmail_push 1 sample_world (Json [(''historyId'', ''5'')]) (Notification (Some ''9'')) =
     Some (Json [(''historyId'', ''5'')],
           [Ack 204, HistoryList ''5'' None, WriteFile [(''historyId'', ''5'')]]) \<and>
   numval ''5'' < numval ''9''"
  by (simp add: gmail_push_def push_handler_def push_start_def processHistorySince_def
      sample_world_def one_page_def truthy_def loadState_loaded loaded_def saveState_cases
      numval_simps)

section \<open>The persisted cursor over a sequence of pushes\<close>

lemma fold_event_ge:
  assumes "\<forall>i \<in> set (hist_ids hs). numval start \<le> numval i" and "numval start \<le> numval l"
  shows "numval start \<le> numval (fst (fold fold_event hs (l, a)))"
proof (cases "hist_ids hs = []")
  case True
  with assms(2) show ?thesis by (simp add: fold_event_fold)
next
  case False
  then have "last (hist_ids hs) \<in> set (hist_ids hs)" by simp
  with assms(1) False show ?thesis by (simp add: fold_event_fold)
qed

lemma page_loop_ge:
  "ordered_remote w \<Longrightarrow> page_loop n w start tok (l, a) = Some (Inr (l', a'), tr) \<Longrightarrow>
   numval start \<le> numval l \<Longrightarrow> numval start \<le> numval l'"
proof (induction n arbitrary: tok l a tr)
  case 0
  then show ?case by simp
next
  case (Suc n)
  show ?case
  proof (cases "history_list w start tok")
    case (Inl e)
    with Suc.prems show ?thesis by auto
  next
    case (Inr pg)
    let ?acc = "fold fold_event (history pg) (l, a)"
    from Suc.prems(1) Inr have "\<forall>i \<in> set (hist_ids (history pg)). numval start \<le> numval i"
      by (auto simp: ordered_remote_def event_ids_def)
    then have ge: "numval start \<le> numval (fst ?acc)"
      using Suc.prems(3) by (rule fold_event_ge)
    show ?thesis
    proof (cases "truthy (nextPageToken pg)")
      case True
      with Suc.prems(2) Inr obtain tr' where
        "page_loop n w start (nextPageToken pg) ?acc = Some (Inr (l', a'), tr')"
        by (auto simp: Let_def split: option.splits)
      then have "page_loop n w start (nextPageToken pg) (fst ?acc, snd ?acc) = Some (Inr (l', a'), tr')"
        by simp
      from Suc.IH[OF Suc.prems(1) this ge] show ?thesis .
    next
      case False
      with Suc.prems(2) Inr have "?acc = (l', a')" by (auto simp: Let_def)
      with ge show ?thesis by simp
    qed
  qed
qed

lemma pos_val_update [simp]: "pos_val (Json (AList.update ''historyId'' v st)) = numval v"
  by (simp add: pos_val_def or_empty_def)

lemma process_monotone:
  assumes "ordered_remote w" and "pos_val f \<le> numval start"
    and "processHistorySince n w f start = Some (r, f', tr)"
    and "\<not> truncating_failure w"
  shows "pos_val f \<le> pos_val f'"
proof (cases "page_loop n w start None (start, [])")
  case None
  with assms(3) show ?thesis by (simp add: processHistorySince_def)
next
  case (Some res)
  obtain pr ptr where res: "res = (pr, ptr)" by (cases res)
  show ?thesis
  proof (cases pr)
    case (Inl e)
    with assms(3) Some res show ?thesis by (auto simp: processHistorySince_def)
  next
    case (Inr la)
    obtain l a where la: "la = (l, a)" by (cases la)
    have "numval start \<le> numval l"
      using page_loop_ge[OF assms(1), of n start None start "[]" l a ptr] Some res Inr la by simp
    with assms(2) have "pos_val f \<le> numval l" by simp
    with assms(3,4) Some res Inr la show ?thesis
      by (auto simp: processHistorySince_def Let_def loadState_loaded saveState_cases
          truncating_failure_def split: if_splits option.splits)
  qed
qed

lemma pos_val_le_push_start: "pos_val f \<le> numval (push_start (loaded f) h)"
  by (cases f)
     (simp_all add: push_start_def loaded_def cursor_of_def pos_val_def or_empty_def numval_def
        split: option.splits)

lemma push_monotone:
  assumes "ordered_remote w" and "push_handler route n w f req = Some (f', tr)"
    and "\<not> truncating_failure w"
  shows "pos_val f \<le> pos_val f'"
proof (cases req)
  case NoData
  with assms(2) show ?thesis by (simp add: push_handler_def)
next
  case (BadData e)
  with assms(2) show ?thesis by (simp add: push_handler_def)
next
  case (Notification ho)
  show ?thesis
  proof (cases "truthy ho")
    case False
    with assms(2) Notification show ?thesis
      by (auto simp: push_handler_def truthy_def split: option.splits if_splits)
  next
    case True
    then obtain h where h: "ho = Some h" "h \<noteq> []"
      by (auto simp: truthy_def split: option.splits)
    with assms(2) Notification obtain r tr' where
      "processHistorySince n w f (push_start (loaded f) h) = Some (r, f', tr')"
      by (auto simp: push_handler_def loadState_loaded split: option.splits sum.splits)
    from process_monotone[OF assms(1) pos_val_le_push_start this assms(3)] show ?thesis .
  qed
qed

text \<open>
  Claim C3, amended. Pushes are handled one after the other, on either route, each
  pass reading the cursor the pass before it left. If in every pass the change log
  returns only events whose identifiers are, as numbers, at or above the position
  it is asked from, and no write of the state file fails after the file was
  truncated, the persisted cursor never decreases (no cursor counts as 0). A pass
  whose page request fails, or whose write fails at the open, leaves the cursor as
  it was.
\<close>

theorem cursor_monotone_under_ordered_remote:
  assumes "\<forall>(r, w, req) \<in> set inputs. ordered_remote w \<and> \<not> truncating_failure w"
    and "pushes n f inputs = Some fs"
  shows "sorted (map pos_val (f # fs)) \<and> length fs = length inputs"
  using assms
proof (induction inputs arbitrary: f fs)
  case Nil
  then show ?case by simp
next
  case (Cons inp inputs)
  obtain r w req where inp: "inp = (r, w, req)" by (cases inp)
  from Cons.prems(2) inp obtain f' tr fs' where
    step: "handle_push r n w f req = Some (f', tr)"
    and rest: "pushes n f' inputs = Some fs'" and fs: "fs = f' # fs'"
    by (auto split: option.splits)
  from Cons.prems(1) inp have ow: "ordered_remote w" and nt: "\<not> truncating_failure w"
    by simp_all
  have le: "pos_val f \<le> pos_val f'"
    using push_monotone[OF ow _ nt] step
    by (cases r) (simp_all add: handle_push_def gmail_push_def gmail_notify_def)
  from Cons.prems(1) have "\<forall>(r, w, req) \<in> set inputs. ordered_remote w \<and> \<not> truncating_failure w"
    by simp
  from Cons.IH[OF this rest] have ih: "sorted (map pos_val (f' # fs'))" "length fs' = length inputs"
    by simp_all
  from ih(1) le have "sorted (map pos_val (f # f' # fs'))"
    by (auto simp: order_trans[OF le])
  with ih(2) fs show ?case by simp
qed

lemma ordered_log_world: "ordered_remote (log_world lg)"
  by (auto simp: ordered_remote_def log_world_def sample_world_def log_remote_def
      event_ids_def hist_ids_def split: option.splits if_splits)


lemma ordered_read_only: "ordered_remote (read_only lg)"
  using ordered_log_world[of lg] by (simp add: ordered_remote_def read_only_def)

lemma no_truncating_failure:
  "\<not> truncating_failure (log_world lg)" "\<not> truncating_failure (read_only lg)"
  by (simp_all add: truncating_failure_def read_only_def log_world_def sample_world_def)

lemma three_pushes:
  "pushes 1 Absent [(GmailPush, log_world early_log, Notification (Some ''12'')),
                    (GmailNotify, read_only later_log, Notification (Some ''14'')),
                    (GmailNotify, log_world later_log, Notification (Some ''11''))] =
     Some [Json [(''historyId'', ''12'')], Json [(''historyId'', ''12'')],
           Json [(''historyId'', ''14'')]]"
proof -
  have s1: "served (log_world early_log) ''12'' None [\<lparr> history = [], nextPageToken = None \<rparr>]"
    by (simp add: log_world_def sample_world_def log_remote_def early_log_def numval_simps truthy_def)
  have s2: "served (log_world later_log) ''12'' None
      [\<lparr> history = [\<lparr> hid = Some ''13'', messagesAdded = [Some ''m1''] \<rparr>,
                      \<lparr> hid = Some ''14'', messagesAdded = [Some ''m2''] \<rparr>],
         nextPageToken = None \<rparr>]"
    by (simp add: log_world_def sample_world_def log_remote_def later_log_def early_log_def
        numval_simps truthy_def)
  have s3: "served (read_only later_log) ''12'' None
      [\<lparr> history = [\<lparr> hid = Some ''13'', messagesAdded = [Some ''m1''] \<rparr>,
                      \<lparr> hid = Some ''14'', messagesAdded = [Some ''m2''] \<rparr>],
         nextPageToken = None \<rparr>]"
    by (simp add: read_only_def log_world_def sample_world_def log_remote_def later_log_def
        early_log_def numval_simps truthy_def)
  have w: "write_error (log_world lg) = None" for lg
    by (simp add: log_world_def sample_world_def)
  have w3: "write_error (read_only lg) = Some (Err None ''EACCES'')"
    "\<not> write_truncated (read_only lg)" for lg
    by (simp_all add: read_only_def log_world_def sample_world_def)
  have p1: "gmail_push (Suc 0) (log_world early_log) Absent (Notification (Some ''12'')) =
      Some (Json [(''historyId'', ''12'')], [Ack 204, HistoryList ''12'' None, WriteFile [(''historyId'', ''12'')]])"
    by (simp add: gmail_push_def push_handler_def loadState_loaded loaded_def push_start_def
        process_served[OF s1] Let_def latest_of_def event_ids_def hist_ids_def added_ids_def
        hist_added_def w)
  have p2: "\<exists>tr. gmail_notify (Suc 0) (read_only later_log) (Json [(''historyId'', ''12'')])
        (Notification (Some ''14'')) = Some (Json [(''historyId'', ''12'')], tr)"
    by (simp add: gmail_notify_def push_handler_def loadState_loaded loaded_def push_start_def
        process_served[OF s3] Let_def latest_of_def event_ids_def hist_ids_def added_ids_def
        hist_added_def w3)
  then obtain tr2 where p2': "gmail_notify (Suc 0) (read_only later_log) (Json [(''historyId'', ''12'')])
        (Notification (Some ''14'')) = Some (Json [(''historyId'', ''12'')], tr2)" ..
  have p3: "\<exists>tr. gmail_notify (Suc 0) (log_world later_log) (Json [(''historyId'', ''12'')])
        (Notification (Some ''11'')) = Some (Json [(''historyId'', ''14'')], tr)"
    by (simp add: gmail_notify_def push_handler_def loadState_loaded loaded_def push_start_def
        process_served[OF s2] Let_def latest_of_def event_ids_def hist_ids_def added_ids_def
        hist_added_def w)
  then obtain tr3 where p3': "gmail_notify (Suc 0) (log_world later_log) (Json [(''historyId'', ''12'')])
        (Notification (Some ''11'')) = Some (Json [(''historyId'', ''14'')], tr3)" ..
  show ?thesis by (simp add: handle_push_def p1 p2' p3')
qed

text \<open>
  Three pushes on both routes. The first finds no cursor and persists 12. In the
  second the state file cannot be opened for writing: the cursor stays 12. The third
  carries a stale hint, starts from 12 and persists 14.
\<close>

theorem cursor_monotone_under_ordered_remote_witness:
  "ordered_remote (log_world early_log) \<and> \<not> truncating_failure (log_world early_log) \<and>
   ordered_remote (read_only later_log) \<and> \<not> truncating_failure (read_only later_log) \<and>
   ordered_remote (log_world later_log) \<and> \<not> truncating_failure (log_world later_log) \<and>
   pushes 1 Absent [(GmailPush, log_world early_log, Notification (Some ''12'')),
                    (GmailNotify, read_only later_log, Notification (Some ''14'')),
                    (GmailNotify, log_world later_log, Notification (Some ''11''))] =
     Some [Json [(''historyId'', ''12'')], Json [(''historyId'', ''12'')],
           Json [(''historyId'', ''14'')]] \<and>
   sorted (map pos_val [Absent, Json [(''historyId'', ''12'')], Json [(''historyId'', ''12'')],
                        Json [(''historyId'', ''14'')]])"
proof -
  have o: "\<forall>(r, w, req) \<in> set [(GmailPush, log_world early_log, Notification (Some ''12'')),
                    (GmailNotify, read_only later_log, Notification (Some ''14'')),
                    (GmailNotify, log_world later_log, Notification (Some ''11''))].
             ordered_remote w \<and> \<not> truncating_failure w"
    by (simp add: ordered_log_world ordered_read_only no_truncating_failure)
  have srt: "sorted (map pos_val [Absent, Json [(''historyId'', ''12'')],
                        Json [(''historyId'', ''12'')], Json [(''historyId'', ''14'')]])"
    using cursor_monotone_under_ordered_remote[OF o three_pushes] by simp
  show ?thesis
    by (intro conjI ordered_log_world ordered_read_only no_truncating_failure three_pushes srt)
qed

text \<open>
  Claim C3 as stated fails: the pass persists the identifier of the last event it
  is given, so a response whose last event is 5 takes the cursor from 10 down to 5.
\<close>

theorem cursor_decreases_counterexample:
  "history_list unordered_world ''10'' None =
     Inr \<lparr> history = [\<lparr> hid = Some ''7'', messagesAdded = [] \<rparr>,
                      \<lparr> hid = Some ''5'', messagesAdded = [] \<rparr>],
           nextPageToken = None \<rparr> \<and>
   processHistorySince 1 unordered_world (Json [(''historyId'', ''10'')]) ''10'' =
     Some (Inr \<lparr> count = 0, latestHistoryId = ''5'' \<rparr>, Json [(''historyId'', ''5'')],
           [HistoryList ''10'' None, WriteFile [(''historyId'', ''5'')]]) \<and>
   pos_val (Json [(''historyId'', ''5'')]) < pos_val (Json [(''historyId'', ''10'')])"
  by (simp add: processHistorySince_def unordered_world_def sample_world_def one_page_def
      fold_event_def truthy_def loadState_loaded loaded_def saveState_cases numval_simps
      pos_val_def cursor_of_def or_empty_def)

text \<open>
  The hypothesis on writes is needed: with an ordered change log, a write that fails
  after the file was truncated leaves no cursor where 10 was persisted.
\<close>

lemma cursor_lost_when_write_truncates:
  "ordered_remote (log_world later_log \<lparr> write_error := Some (Err None ''ENOSPC''), write_truncated := True \<rparr>) \<and>
   (\<exists>r tr. processHistorySince 1
        (log_world later_log \<lparr> write_error := Some (Err None ''ENOSPC''), write_truncated := True \<rparr>)
        (Json [(''historyId'', ''10'')]) ''10'' = Some (r, Corrupt, tr)) \<and>
   pos_val Corrupt < pos_val (Json [(''historyId'', ''10'')])"
proof -
  let ?w = "log_world later_log \<lparr> write_error := Some (Err None ''ENOSPC''), write_truncated := True \<rparr>"
  have o: "ordered_remote ?w"
    using ordered_log_world[of later_log] by (simp add: ordered_remote_def)
  have s: "served ?w ''10'' None [\<lparr> history = later_log, nextPageToken = None \<rparr>]"
    by (simp add: log_world_def sample_world_def log_remote_def later_log_def early_log_def
        numval_simps truthy_def)
  have run: "\<exists>r tr. processHistorySince 1 ?w (Json [(''historyId'', ''10'')]) ''10'' = Some (r, Corrupt, tr)"
    using process_served[OF s, of 1 "Json [(''historyId'', ''10'')]"]
    by (simp add: Let_def latest_of_def event_ids_def hist_ids_def later_log_def early_log_def
        log_world_def sample_world_def)
  have p: "pos_val Corrupt < pos_val (Json [(''historyId'', ''10'')])"
    by (simp add: pos_val_def cursor_of_def or_empty_def numval_simps numval_def)
  from o run p show ?thesis by (intro conjI)
qed

section \<open>Content extractor: the first non-empty part wins\<close>

lemma first_nonempty_Nil [simp]: "first_nonempty [] = []"
  by (simp add: first_nonempty_def)

lemma first_nonempty_Cons [simp]:
  "first_nonempty (x # xs) = (if x \<noteq> [] then x else first_nonempty xs)"
  by (simp add: first_nonempty_def)

lemma first_nonempty_append:
  "first_nonempty (xs @ ys) =
     (if first_nonempty xs \<noteq> [] then first_nonempty xs else first_nonempty ys)"
  by (induction xs) auto

lemma candidates_Part:
  "candidates dec mt (Part m hs d ps) =
     (if m = Some mt \<and> truthy d then [decodeBase64UrlToUtf8 dec d] else []) @
     concat (map (candidates dec mt) ps)"
  unfolding candidates_def by (simp add: map_concat filter_concat comp_def)

lemma walk_first_wins:
  "walk dec p (t, h) =
     (if t \<noteq> [] then t else first_nonempty (candidates dec ''text/plain'' p),
      if h \<noteq> [] then h else first_nonempty (candidates dec ''text/html'' p))"
proof (induction p arbitrary: t h)
  case (Part m hs d ps)
  have children: "fold (walk dec) qs (t, h) =
      (if t \<noteq> [] then t else first_nonempty (concat (map (candidates dec ''text/plain'') qs)),
       if h \<noteq> [] then h else first_nonempty (concat (map (candidates dec ''text/html'') qs)))"
    if "set qs \<subseteq> set ps" for qs t h
    using that
  proof (induction qs arbitrary: t h)
    case Nil
    show ?case by simp
  next
    case (Cons q qs)
    then have q: "q \<in> set ps" and qs: "set qs \<subseteq> set ps" by auto
    show ?case
      by (simp add: Part.IH[OF q] Cons.IH[OF qs] first_nonempty_append)
  qed
  show ?case
    by (simp add: Let_def children candidates_Part first_nonempty_append)
qed


text \<open>
  Claim C7, amended. The plain text the extractor returns is the trimmed content of
  the first part, in depth-first order, that is of type \<open>text/plain\<close>, carries inline
  data and decodes to a non-empty string; a top-level body with inline data of
  neither type comes before all of them. The HTML returned is the trimmed content of
  the first \<open>text/html\<close> part with inline data that decodes to a non-empty string.
  All later parts of the same type are ignored. In particular, when the first
  plain-text part decodes to a non-empty string, its trimmed content is returned.
\<close>

theorem first_nonempty_part_wins:
  "extractEmailBodies dec (Some p) =
     (trim (first_nonempty (provisional dec p @ candidates dec ''text/plain'' p)),
      trim (first_nonempty (candidates dec ''text/html'' p))) \<and>
   (provisional dec p = [] \<longrightarrow>
      (\<forall>c cs. candidates dec ''text/plain'' p = c # cs \<longrightarrow> c \<noteq> [] \<longrightarrow>
         fst (extractEmailBodies dec (Some p)) = trim c)) \<and>
   (\<forall>c cs. candidates dec ''text/html'' p = c # cs \<longrightarrow> c \<noteq> [] \<longrightarrow>
      snd (extractEmailBodies dec (Some p)) = trim c)"
proof -
  obtain m hs d ps where p: "p = Part m hs d ps" by (cases p)
  have main: "extractEmailBodies dec (Some p) =
     (trim (first_nonempty (provisional dec p @ candidates dec ''text/plain'' p)),
      trim (first_nonempty (candidates dec ''text/html'' p)))"
    unfolding p
    by (simp add: extractEmailBodies_def top_level_def provisional_def walk_first_wins
        candidates_Part first_nonempty_append Let_def)
  show ?thesis
    unfolding main by auto
qed

lemma trim_Nil: "trim [] = []"
  by (simp add: trim_def)

lemma decode_samples:
  "decodeBase64UrlToUtf8 sample_decode (Some ''Rmlyc3Q='') = js ''First''"
  "decodeBase64UrlToUtf8 sample_decode (Some ''U2Vjb25k'') = js ''Second''"
  "decodeBase64UrlToUtf8 sample_decode (Some ''='') = []"
  by (simp_all add: decodeBase64UrlToUtf8_def sample_decode_def unbase64_def js_def)

text \<open>
  A tree with the plain-text parts "First" and "Second": the extractor returns "First".
\<close>

theorem first_nonempty_part_wins_witness:
  "provisional sample_decode two_plain = [] \<and>
   candidates sample_decode ''text/plain'' two_plain = [js ''First'', js ''Second''] \<and>
   js ''First'' \<noteq> [] \<and>
   extractEmailBodies sample_decode (Some two_plain) = (js ''First'', [])"
proof -
  have pr: "provisional sample_decode two_plain = []"
    by (simp add: provisional_def two_plain_def truthy_def)
  have ca: "candidates sample_decode ''text/plain'' two_plain = [js ''First'', js ''Second'']"
    by (simp add: candidates_Part two_plain_def truthy_def decode_samples)
  have ne: "js ''First'' \<noteq> []" by (simp add: js_def)
  have ch: "candidates sample_decode ''text/html'' two_plain = []"
    by (simp add: candidates_Part two_plain_def truthy_def)
  have tr: "trim (js ''First'') = js ''First''"
    by (simp add: trim_def js_def is_ws_def)
  from first_nonempty_part_wins[of sample_decode two_plain]
  have "extractEmailBodies sample_decode (Some two_plain) = (js ''First'', [])"
    by (simp add: pr ca ch ne tr trim_Nil)
  with pr ca ne show ?thesis by simp
qed

text \<open>
  Claim C7 as stated fails: when the data of the first plain-text part decodes to
  the empty string, the variable \<open>text\<close> is still empty at the second part, which
  is decoded and returned.
\<close>

theorem later_part_wins_counterexample:
  "dfs empty_first =
     [empty_first, Part (Some ''text/plain'') [] (Some ''='') [],
      Part (Some ''text/plain'') [] (Some ''U2Vjb25k'') []] \<and>
   decodeBase64UrlToUtf8 sample_decode (Some ''='') = [] \<and>
   decodeBase64UrlToUtf8 sample_decode (Some ''U2Vjb25k'') = js ''Second'' \<and>
   extractEmailBodies sample_decode (Some empty_first) = (js ''Second'', [])"
  by (simp add: decode_samples empty_first_def extractEmailBodies_def top_level_def truthy_def
      trim_def js_def is_ws_def)

section \<open>The body of a forwarded message\<close>

lemma replaceAll_no_match:
  "(\<And>n. rx_match ci r (drop n s) = []) \<Longrightarrow> replaceAll ci r rep s = s"
proof (induction s)
  case Nil
  from Nil[of 0] show ?case by simp
next
  case (Cons c t)
  have "rx_match ci r (drop n t) = []" for n
    using Cons.prems[of "Suc n"] by simp
  then have "replaceAll ci r rep t = t" by (rule Cons.IH)
  with Cons.prems[of 0] show ?case by simp
qed

lemma plain_drop: "plain s \<Longrightarrow> plain (drop n s)"
  by (auto simp: plain_def dest: in_set_dropD)

lemma canon_eq_iff: "c \<noteq> 60 \<Longrightarrow> canon ci c \<noteq> 60" "c \<noteq> 38 \<Longrightarrow> canon ci c \<noteq> 38"
  by (auto simp: canon_def)

lemma lit_no_match:
  assumes "plain s" and "hd l = 60 \<or> hd l = 38" and "l \<noteq> []"
  shows "rx_match ci (Lit l) s = []"
proof (cases s)
  case Nil
  with assms(3) show ?thesis by simp
next
  case (Cons c t)
  obtain a k where l: "l = a # k" using assms(3) by (cases l) auto
  from assms(1) Cons have "c \<noteq> 60" "c \<noteq> 38" by (auto simp: plain_def)
  then have "canon ci c \<noteq> 60" "canon ci c \<noteq> 38" by (simp_all add: canon_eq_iff)
  moreover from assms(2) l have "canon ci a = 60 \<or> canon ci a = 38" by (auto simp: canon_def)
  ultimately show ?thesis using Cons l by auto
qed

lemma seq_no_match: "rx_match ci a s = [] \<Longrightarrow> rx_match ci (Seq a b) s = []"
  by simp

lemma ws_run_no_match:
  assumes "plain s" and "0 < m" and "\<And>c. in_cls k c \<Longrightarrow> is_ws c"
  shows "rx_match ci (Greedy m k) s = []"
proof -
  have "takeWhile (in_cls k) s = []"
    using assms(1,3) by (cases s) (auto simp: plain_def)
  with assms(2) show ?thesis by simp
qed

lemma trim_plain: "plain s \<Longrightarrow> trim s = s"
proof -
  assume p: "plain s"
  have a: "dropWhile is_ws s = s"
    using p by (cases s) (auto simp: plain_def)
  have "dropWhile is_ws (rev s) = rev s"
    using p by (cases "rev s") (auto simp: plain_def dest: arg_cong[where f = set])
  with a show ?thesis by (simp add: trim_def)
qed

lemma stripHtml_plain:
  assumes "plain s"
  shows "stripHtml s = s"
proof -
  have lit: "replaceAll ci (Lit l) rep s = s" if "hd l = 60 \<or> hd l = 38" "l \<noteq> []" for ci l rep
    by (rule replaceAll_no_match) (rule lit_no_match[OF plain_drop[OF assms] that])
  have sq: "replaceAll ci (Seq (Lit l) b) rep s = s" if "hd l = 60 \<or> hd l = 38" "l \<noteq> []" for ci l b rep
    by (rule replaceAll_no_match, rule seq_no_match)
       (rule lit_no_match[OF plain_drop[OF assms] that])
  have ws: "replaceAll ci (Greedy m k) rep s = s" if "0 < m" "\<And>c. in_cls k c \<Longrightarrow> is_ws c" for ci m k rep
    by (rule replaceAll_no_match) (rule ws_run_no_match[OF plain_drop[OF assms] that])
  have wsq: "replaceAll ci (Seq (Greedy m k) b) rep s = s"
    if "0 < m" "\<And>c. in_cls k c \<Longrightarrow> is_ws c" for ci m k b rep
    by (rule replaceAll_no_match, rule seq_no_match)
       (rule ws_run_no_match[OF plain_drop[OF assms] that])
  have w14: "replaceAll False (Seq (Greedy (Suc 0) Ws) (Lit [10])) [10] s = s"
    by (rule wsq) simp_all
  have w15: "replaceAll False (Greedy 3 (Only 10)) [10, 10] s = s"
    by (rule ws) (simp_all add: is_ws_def)
  have w16: "replaceAll False (Greedy 2 Ws) [32] s = s"
    by (rule ws) simp_all
  show ?thesis
    by (simp add: stripHtml_def Let_def rx_block_def rx_br_before_tag_def rx_br_def
        rx_block_close_def rx_tag_def lit sq w14 w15 w16 js_def trim_plain[OF assms])
qed


lemmas strip_defs = stripHtml_def js_def rx_block_def rx_br_before_tag_def rx_br_def
  rx_block_close_def rx_tag_def bullet_def canon_def trim_def is_ws_def

lemma stripHtml_markup:
  "stripHtml markup_fixture =
     js ''T a'' @ [10] @ js ''b'' @ [10] @ js ''c'' @ bullet @ js ''one'' @ bullet @ js ''two end''"
  by (simp add: markup_fixture_def strip_defs)

lemma stripHtml_entities:
  "stripHtml entity_fixture = js ''a &<>'' @ [39, 34] @ js ''< z''"
  by (simp add: entity_fixture_def strip_defs)

lemma stripHtml_space:
  "stripHtml space_fixture = js ''a b c'' @ [10] @ js ''d''"
  by (simp add: space_fixture_def strip_defs)

lemma handed_over_Nil [simp]: "handed_over [] = []"
  by (simp add: handed_over_def)

lemma handed_over_append [simp]: "handed_over (xs @ ys) = handed_over xs @ handed_over ys"
  by (simp add: handed_over_def)

lemma handed_over_Cons:
  "handed_over (e # tr) =
     (case e of SseWrite c ev src m d ok \<Rightarrow> [d]
      | AxiosPost url b \<Rightarrow> (case b of EmailBody d \<Rightarrow> [d] | _ \<Rightarrow> [])
      | _ \<Rightarrow> []) @ handed_over tr"
  by (simp add: handed_over_def)

lemma handed_over_sse: "set (handed_over (sseBroadcast w ev src m d)) \<subseteq> {d}"
  by (induction "sseClients w") (auto simp: sseBroadcast_def handed_over_def)

lemma handed_over_ensure [simp]: "handed_over (ensureContainerSession w) = []"
  by (simp add: ensureContainerSession_def handed_over_Cons Let_def split: option.splits sum.splits)

lemma handed_over_agent [simp]: "handed_over (postEmailToContainerAPI w d) = []"
  by (simp add: postEmailToContainerAPI_def handed_over_Cons Let_def split: option.splits sum.splits)

lemma forwarded_data:
  assumes "messages_get w i = Inr (Some p)"
  shows "(\<forall>d. fst (forwardMessageById w i) = Inr d \<longrightarrow> d = emailData_of (decode w) p) \<and>
    set (handed_over (snd (forwardMessageById w i))) \<subseteq> {emailData_of (decode w) p}"
proof -
  have "set (handed_over (sseBroadcast w ''email'' ''push'' i (emailData_of (decode w) p)))
      \<subseteq> {emailData_of (decode w) p}"
    by (rule handed_over_sse)
  then show ?thesis
    using assms
    by (simp add: forwardMessageById_def handed_over_Cons Let_def split: option.splits sum.splits)
qed

text \<open>
  Claim C8. Every message that \<open>forwardMessageById\<close> returns or hands to a sink has
  as body the extracted plain text when that is not empty, else the stripped HTML
  when an HTML body exists, else the marker \<open>(no text found)\<close>; the body is a
  string in every case. For the message whose only part is the HTML \<open><p>Hi</p>\<close>,
  on a platform that decodes its data to that string, extraction gives an empty
  text and that HTML, and the body is \<open>Hi\<close>; for the one whose only part is
  \<open><li>A</li>\<close> the body is the list marker of line 125 without its leading space,
  a space and \<open>A\<close>. The stripped text is what the sixteen replacements and the
  trim give: nothing for the empty string, the text itself when it has no \<open><\<close>, no
  \<open>&\<close> and no white space, and the values shown for three fixtures with markup,
  with entities and with white space.
\<close>

theorem body_fallback_chain:
  "(messages_get w i = Inr (Some p) \<longrightarrow>
      (\<forall>d. (fst (forwardMessageById w i) = Inr d \<or>
            d \<in> set (handed_over (snd (forwardMessageById w i)))) \<longrightarrow>
         body d =
           (case extractEmailBodies (decode w) (Some p) of
              (t, h) \<Rightarrow> if t \<noteq> [] then t
                        else if h \<noteq> [] then stripHtml h else js ''(no text found)''))) \<and>
   (decode w ''PHA+SGk8L3A+'' = Inr (js ''<p>Hi</p>'') \<longrightarrow>
      extractEmailBodies (decode w) (Some html_only) = ([], js ''<p>Hi</p>'') \<and>
      body (emailData_of (decode w) html_only) = js ''Hi'') \<and>
   (decode w ''PGxpPkE8L2xpPg=='' = Inr (js ''<li>A</li>'') \<longrightarrow>
      extractEmailBodies (decode w) (Some html_list) = ([], js ''<li>A</li>'') \<and>
      body (emailData_of (decode w) html_list) = [226, 8364, 162, 32, 65]) \<and>
   stripHtml [] = [] \<and>
   (plain s \<longrightarrow> stripHtml s = s) \<and>
   stripHtml markup_fixture =
     js ''T a'' @ [10] @ js ''b'' @ [10] @ js ''c'' @ [32, 226, 8364, 162, 32] @ js ''one'' @
     [32, 226, 8364, 162, 32] @ js ''two end'' \<and>
   stripHtml entity_fixture = js ''a &<>'' @ [39, 34] @ js ''< z'' \<and>
   stripHtml space_fixture = js ''a b c'' @ [10] @ js ''d''"
proof -
  have general: "body d =
           (case extractEmailBodies (decode w) (Some p) of
              (t, h) \<Rightarrow> if t \<noteq> [] then t
                        else if h \<noteq> [] then stripHtml h else js ''(no text found)'')"
    if g: "messages_get w i = Inr (Some p)"
      and d: "fst (forwardMessageById w i) = Inr d \<or>
            d \<in> set (handed_over (snd (forwardMessageById w i)))" for d
  proof -
    from forwarded_data[OF g] d have "d = emailData_of (decode w) p" by auto
    then show ?thesis
      by (simp add: emailData_of_def no_text_found_def Let_def split: prod.splits)
  qed
  have hi: "extractEmailBodies (decode w) (Some html_only) = ([], js ''<p>Hi</p>'') \<and>
      body (emailData_of (decode w) html_only) = js ''Hi''"
    if dec: "decode w ''PHA+SGk8L3A+'' = Inr (js ''<p>Hi</p>'')"
  proof -
    have tr: "trim (js ''<p>Hi</p>'') = js ''<p>Hi</p>''"
      by (simp add: trim_def js_def is_ws_def)
    have ex: "extractEmailBodies (decode w) (Some html_only) = ([], js ''<p>Hi</p>'')"
      by (simp add: extractEmailBodies_def html_only_def top_level_def truthy_def
          decodeBase64UrlToUtf8_def dec tr trim_Nil)
    have ne: "js ''<p>Hi</p>'' \<noteq> []" by (simp add: js_def)
    have strip: "stripHtml (js ''<p>Hi</p>'') = js ''Hi''"
      by (simp add: strip_defs)
    have "body (emailData_of (decode w) html_only) = js ''Hi''"
      by (simp add: emailData_of_def ex ne strip Let_def)
    with ex show ?thesis ..
  qed
  have li: "extractEmailBodies (decode w) (Some html_list) = ([], js ''<li>A</li>'') \<and>
      body (emailData_of (decode w) html_list) = [226, 8364, 162, 32, 65]"
    if dec: "decode w ''PGxpPkE8L2xpPg=='' = Inr (js ''<li>A</li>'')"
  proof -
    have tr: "trim (js ''<li>A</li>'') = js ''<li>A</li>''"
      by (simp add: trim_def js_def is_ws_def)
    have ex: "extractEmailBodies (decode w) (Some html_list) = ([], js ''<li>A</li>'')"
      by (simp add: extractEmailBodies_def html_list_def top_level_def truthy_def
          decodeBase64UrlToUtf8_def dec tr trim_Nil)
    have ne: "js ''<li>A</li>'' \<noteq> []" by (simp add: js_def)
    have strip: "stripHtml (js ''<li>A</li>'') = [226, 8364, 162, 32, 65]"
      by (simp add: strip_defs)
    have "body (emailData_of (decode w) html_list) = [226, 8364, 162, 32, 65]"
      by (simp add: emailData_of_def ex ne strip Let_def)
    with ex show ?thesis ..
  qed
  have empty: "stripHtml [] = []" by (simp add: stripHtml_def)
  have pl: "plain s \<longrightarrow> stripHtml s = s" by (simp add: stripHtml_plain)
  have mk: "stripHtml markup_fixture =
     js ''T a'' @ [10] @ js ''b'' @ [10] @ js ''c'' @ [32, 226, 8364, 162, 32] @ js ''one'' @
     [32, 226, 8364, 162, 32] @ js ''two end''"
    using stripHtml_markup by (simp add: bullet_def)
  from general hi li empty pl mk stripHtml_entities stripHtml_space
  show ?thesis by (intro conjI impI allI) blast+
qed

text \<open>
  The sample platform decodes the data of the HTML-only message; its forward returns
  a message with body \<open>Hi\<close>. The word \<open>Hello\<close> is plain and is its own stripped text.
\<close>

theorem body_fallback_chain_witness:
  "messages_get sample_world ''m1'' = Inr (Some html_only) \<and>
   decode sample_world ''PHA+SGk8L3A+'' = Inr (js ''<p>Hi</p>'') \<and>
   extractEmailBodies (decode sample_world) (Some html_only) = ([], js ''<p>Hi</p>'') \<and>
   body (emailData_of (decode sample_world) html_only) = js ''Hi'' \<and>
   (\<exists>d. fst (forwardMessageById sample_world ''m1'') = Inr d \<and> body d = js ''Hi'') \<and>
   decode sample_world ''PGxpPkE8L2xpPg=='' = Inr (js ''<li>A</li>'') \<and>
   body (emailData_of (decode sample_world) html_list) = [226, 8364, 162, 32, 65] \<and>
   plain (js ''Hello'') \<and> stripHtml (js ''Hello'') = js ''Hello''"
proof -
  have g: "messages_get sample_world ''m1'' = Inr (Some html_only)"
    by (simp add: sample_world_def)
  have dec: "decode sample_world ''PHA+SGk8L3A+'' = Inr (js ''<p>Hi</p>'')"
    by (simp add: sample_world_def sample_decode_def unbase64_def js_def)
  have dec2: "decode sample_world ''PGxpPkE8L2xpPg=='' = Inr (js ''<li>A</li>'')"
    by (simp add: sample_world_def sample_decode_def unbase64_def js_def)
  have pl: "plain (js ''Hello'')"
    by (simp add: plain_def js_def is_ws_def)
  note inst = body_fallback_chain[of sample_world "''m1''" html_only "js ''Hello''"]
  from inst dec have ex: "extractEmailBodies (decode sample_world) (Some html_only) = ([], js ''<p>Hi</p>'')"
    and b: "body (emailData_of (decode sample_world) html_only) = js ''Hi''"
    by simp_all
  from inst dec2 have b2: "body (emailData_of (decode sample_world) html_list) = [226, 8364, 162, 32, 65]"
    by simp
  from inst pl have st: "stripHtml (js ''Hello'') = js ''Hello''"
    by simp
  have r: "fst (forwardMessageById sample_world ''m1'') = Inr (emailData_of (decode sample_world) html_only)"
    by (simp add: forwardMessageById_def g Let_def sample_world_def)
  from r b have fw: "\<exists>d. fst (forwardMessageById sample_world ''m1'') = Inr d \<and> body d = js ''Hi''"
    by simp
  show ?thesis by (intro conjI g dec ex b fw dec2 b2 pl st)
qed

section \<open>Fan-out forwarder: which failures are isolated\<close>

lemma posts_of_Nil [simp]: "posts_of [] = []"
  by (simp add: posts_of_def)

lemma posts_of_append [simp]: "posts_of (xs @ ys) = posts_of xs @ posts_of ys"
  by (simp add: posts_of_def)

lemma posts_of_Cons:
  "posts_of (e # tr) = (case e of AxiosPost url b \<Rightarrow> [url] | _ \<Rightarrow> []) @ posts_of tr"
  by (simp add: posts_of_def)

lemma posts_of_sse [simp]: "posts_of (sseBroadcast w ev src m d) = []"
  by (induction "sseClients w") (auto simp: sseBroadcast_def posts_of_def)

lemma forward_value:
  assumes "messages_get w i = Inr (Some p)"
  shows "forwardMessageById w i =
     (let data = emailData_of (decode w) p;
          tr1 = MessagesGet i # sseBroadcast w ''email'' ''push'' i data;
          hook = (case NGROK_ENDPOINT w of
                    None \<Rightarrow> []
                  | Some url \<Rightarrow> if url = [] then [] else [AxiosPost url (EmailBody data)])
      in case webhook_error w data of
           None \<Rightarrow> (Inr data, tr1 @ hook @ postEmailToContainerAPI w data)
         | Some e \<Rightarrow> (Inl e, tr1 @ hook))"
  using assms
  by (simp add: forwardMessageById_def webhook_error_def Let_def split: option.splits sum.splits)

lemma agent_posts:
  assumes "OUTBOUND_POST_URL w = Some base" and "base \<noteq> []"
  shows "AxiosPost (strip_trailing_slash base @ CONTAINER_CREATE_PATH)
           (CreateSession (CONTAINER_SESSION_ID w)) \<in> set (postEmailToContainerAPI w d) \<and>
         AxiosPost (strip_trailing_slash base @ CONTAINER_QUERY_BASE @ ''/'' @
                    encodeURIComponent (CONTAINER_SESSION_ID w) @ ''/query'')
           (Query (buildEmailPrompt d) False) \<in> set (postEmailToContainerAPI w d)"
  using assms
  by (simp add: postEmailToContainerAPI_def ensureContainerSession_def Let_def)

text \<open>
  What the forwarder isolates. Every attached subscriber is written to, whether or
  not the writes to the others go through, and a configured webhook is always
  posted to. When the webhook POST does not fail, \<open>forwardMessageById\<close> returns
  normally and the agent relay gets its session request and its query whatever the
  outcome of the broadcast, of the session request and of the query. When the
  webhook POST fails, its error leaves \<open>forwardMessageById\<close> and the webhook POST is
  the only POST of the run.
\<close>

theorem forward_isolates_broadcast_and_agent:
  assumes "messages_get w i = Inr (Some p)"
  shows "let data = emailData_of (decode w) p; tr = snd (forwardMessageById w i) in
     (\<forall>c \<in> set (sseClients w). SseWrite c ''email'' ''push'' i data (sse_write_ok w c) \<in> set tr) \<and>
     (\<forall>url. NGROK_ENDPOINT w = Some url \<longrightarrow> url \<noteq> [] \<longrightarrow> AxiosPost url (EmailBody data) \<in> set tr) \<and>
     (webhook_error w data = None \<longrightarrow>
        fst (forwardMessageById w i) = Inr data \<and>
        (\<forall>base. OUTBOUND_POST_URL w = Some base \<longrightarrow> base \<noteq> [] \<longrightarrow>
           AxiosPost (strip_trailing_slash base @ CONTAINER_CREATE_PATH)
             (CreateSession (CONTAINER_SESSION_ID w)) \<in> set tr \<and>
           AxiosPost (strip_trailing_slash base @ CONTAINER_QUERY_BASE @ ''/'' @
                      encodeURIComponent (CONTAINER_SESSION_ID w) @ ''/query'')
             (Query (buildEmailPrompt data) False) \<in> set tr)) \<and>
     (\<forall>e. webhook_error w data = Some e \<longrightarrow>
        fst (forwardMessageById w i) = Inl e \<and>
        posts_of tr = (case NGROK_ENDPOINT w of None \<Rightarrow> [] | Some url \<Rightarrow> [url]))"
proof -
  define data where "data = emailData_of (decode w) p"
  define tr where "tr = snd (forwardMessageById w i)"
  define hook where "hook =
     (case NGROK_ENDPOINT w of
        None \<Rightarrow> []
      | Some url \<Rightarrow> if url = [] then [] else [AxiosPost url (EmailBody data)])"
  have val: "forwardMessageById w i =
      (case webhook_error w data of
         None \<Rightarrow> (Inr data, (MessagesGet i # sseBroadcast w ''email'' ''push'' i data) @ hook @
                    postEmailToContainerAPI w data)
       | Some e \<Rightarrow> (Inl e, (MessagesGet i # sseBroadcast w ''email'' ''push'' i data) @ hook))"
    unfolding data_def hook_def by (simp add: forward_value[OF assms] Let_def)
  have sse: "\<forall>c \<in> set (sseClients w). SseWrite c ''email'' ''push'' i data (sse_write_ok w c) \<in> set tr"
    by (cases "webhook_error w data") (auto simp: tr_def val sseBroadcast_def)
  have hk: "\<forall>url. NGROK_ENDPOINT w = Some url \<longrightarrow> url \<noteq> [] \<longrightarrow> AxiosPost url (EmailBody data) \<in> set tr"
    by (cases "webhook_error w data") (auto simp: tr_def val hook_def)
  have ok: "webhook_error w data = None \<longrightarrow>
        fst (forwardMessageById w i) = Inr data \<and>
        (\<forall>base. OUTBOUND_POST_URL w = Some base \<longrightarrow> base \<noteq> [] \<longrightarrow>
           AxiosPost (strip_trailing_slash base @ CONTAINER_CREATE_PATH)
             (CreateSession (CONTAINER_SESSION_ID w)) \<in> set tr \<and>
           AxiosPost (strip_trailing_slash base @ CONTAINER_QUERY_BASE @ ''/'' @
                      encodeURIComponent (CONTAINER_SESSION_ID w) @ ''/query'')
             (Query (buildEmailPrompt data) False) \<in> set tr)"
  proof (intro impI conjI allI)
    assume n: "webhook_error w data = None"
    then show "fst (forwardMessageById w i) = Inr data" by (simp add: val)
    fix base assume b: "OUTBOUND_POST_URL w = Some base" "base \<noteq> []"
    from n have t: "set (postEmailToContainerAPI w data) \<subseteq> set tr"
      by (auto simp: tr_def val)
    from agent_posts[OF b, of data] t
    show "AxiosPost (strip_trailing_slash base @ CONTAINER_CREATE_PATH)
             (CreateSession (CONTAINER_SESSION_ID w)) \<in> set tr"
      and "AxiosPost (strip_trailing_slash base @ CONTAINER_QUERY_BASE @ ''/'' @
                      encodeURIComponent (CONTAINER_SESSION_ID w) @ ''/query'')
             (Query (buildEmailPrompt data) False) \<in> set tr"
      by blast+
  qed
  have bad: "\<forall>e. webhook_error w data = Some e \<longrightarrow>
        fst (forwardMessageById w i) = Inl e \<and>
        posts_of tr = (case NGROK_ENDPOINT w of None \<Rightarrow> [] | Some url \<Rightarrow> [url])"
  proof (intro allI impI)
    fix e assume e: "webhook_error w data = Some e"
    then have "NGROK_ENDPOINT w \<noteq> None \<and> NGROK_ENDPOINT w \<noteq> Some []"
      by (auto simp: webhook_error_def split: option.splits if_splits)
    with e show "fst (forwardMessageById w i) = Inl e \<and>
        posts_of tr = (case NGROK_ENDPOINT w of None \<Rightarrow> [] | Some url \<Rightarrow> [url])"
      by (auto simp: tr_def val hook_def posts_of_Cons split: option.splits)
  qed
  from sse hk ok bad show ?thesis
    unfolding Let_def data_def[symmetric] tr_def[symmetric] by (intro conjI)
qed


lemma get_m1:
  "messages_get agent_down ''m1'' = Inr (Some html_only)"
  "messages_get hook_down ''m1'' = Inr (Some html_only)"
  by (simp_all add: agent_down_def hook_down_def sample_world_def)

text \<open>
  The subscriber's write fails and the agent API answers 500 to both requests: the
  forward returns the message and all three sinks were attempted.
\<close>

theorem forward_survives_broadcast_and_agent_failure:
  "messages_get agent_down ''m1'' = Inr (Some html_only) \<and>
   sseClients agent_down = [0] \<and> sse_write_ok agent_down 0 = False \<and>
   webhook_error agent_down (emailData_of (decode agent_down) html_only) = None \<and>
   fst (forwardMessageById agent_down ''m1'') = Inr (emailData_of (decode agent_down) html_only) \<and>
   SseWrite 0 ''email'' ''push'' ''m1'' (emailData_of (decode agent_down) html_only) False
     \<in> set (snd (forwardMessageById agent_down ''m1'')) \<and>
   posts_of (snd (forwardMessageById agent_down ''m1'')) =
     [''http://hook'', ''http://agent/singleton/agent/create'',
      ''http://agent/singleton/agent/intern-0a1b2c3d/query'']"
proof -
  let ?data = "emailData_of (decode agent_down) html_only"
  have cl: "sseClients agent_down = [0]" "sse_write_ok agent_down 0 = False"
    by (simp_all add: agent_down_def sample_world_def)
  have we: "webhook_error agent_down ?data = None"
    by (simp add: webhook_error_def agent_down_def sample_world_def)
  have ng: "NGROK_ENDPOINT agent_down = Some ''http://hook''"
    by (simp add: agent_down_def sample_world_def)
  note inst = forward_isolates_broadcast_and_agent[OF get_m1(1), unfolded Let_def]
  from inst we have r: "fst (forwardMessageById agent_down ''m1'') = Inr ?data"
    by simp
  from inst cl have s: "SseWrite 0 ''email'' ''push'' ''m1'' ?data False
     \<in> set (snd (forwardMessageById agent_down ''m1''))"
    by simp
  have v: "forwardMessageById agent_down ''m1'' =
      (Inr ?data, (MessagesGet ''m1'' # sseBroadcast agent_down ''email'' ''push'' ''m1'' ?data) @
         [AxiosPost ''http://hook'' (EmailBody ?data)] @ postEmailToContainerAPI agent_down ?data)"
    using we ng by (simp add: forward_value[OF get_m1(1)] Let_def)
  have a: "posts_of (postEmailToContainerAPI agent_down ?data) =
      [''http://agent/singleton/agent/create'', ''http://agent/singleton/agent/intern-0a1b2c3d/query'']"
    by (simp add: postEmailToContainerAPI_def ensureContainerSession_def Let_def posts_of_Cons
        agent_down_def sample_world_def strip_trailing_slash_def CONTAINER_CREATE_PATH_def
        CONTAINER_QUERY_BASE_def encodeURIComponent_def unreserved_def)
  have p: "posts_of (snd (forwardMessageById agent_down ''m1'')) =
     [''http://hook'', ''http://agent/singleton/agent/create'',
      ''http://agent/singleton/agent/intern-0a1b2c3d/query'']"
    by (simp add: v posts_of_Cons a)
  show ?thesis by (intro conjI get_m1(1) cl we r s p)
qed

text \<open>
  Claim C1 at a failing input. The webhook and the agent relay are both configured
  and the webhook answers 502: the error leaves \<open>forwardMessageById\<close>, and no request
  is made to the agent relay, which the claim says still receives the message.
\<close>

theorem webhook_failure_skips_agent_relay:
  "messages_get hook_down ''m1'' = Inr (Some html_only) \<and>
   NGROK_ENDPOINT hook_down = Some ''http://hook'' \<and>
   OUTBOUND_POST_URL hook_down = Some ''http://agent/'' \<and>
   fst (forwardMessageById hook_down ''m1'') = Inl (Err (Some 502) ''Bad Gateway'') \<and>
   posts_of (snd (forwardMessageById hook_down ''m1'')) = [''http://hook'']"
proof -
  let ?data = "emailData_of (decode hook_down) html_only"
  have we: "webhook_error hook_down ?data = Some (Err (Some 502) ''Bad Gateway'')"
    by (simp add: webhook_error_def hook_down_def sample_world_def)
  have c: "NGROK_ENDPOINT hook_down = Some ''http://hook''"
    "OUTBOUND_POST_URL hook_down = Some ''http://agent/''"
    by (simp_all add: hook_down_def sample_world_def)
  have v: "forwardMessageById hook_down ''m1'' =
      (Inl (Err (Some 502) ''Bad Gateway''),
       (MessagesGet ''m1'' # sseBroadcast hook_down ''email'' ''push'' ''m1'' ?data) @
         [AxiosPost ''http://hook'' (EmailBody ?data)])"
    using we c by (simp add: forward_value[OF get_m1(2)] Let_def)
  have r: "fst (forwardMessageById hook_down ''m1'') = Inl (Err (Some 502) ''Bad Gateway'')"
    by (simp add: v)
  have p: "posts_of (snd (forwardMessageById hook_down ''m1'')) = [''http://hook'']"
    by (simp add: v posts_of_Cons)
  show ?thesis by (intro conjI get_m1(2) c r p)
qed

end
